theory Spec2Isabelle
  imports Main "HOL-Library.Sublist"
begin

section \<open>Strings\<close>

text \<open>
  A Python \<open>str\<close> is modelled as a \<open>string\<close>; a \<open>char\<close> stands for the code point of the
  same number, so the model covers the code points U+0000 to U+00FF. The library
  functions below (\<open>str.lower\<close>, \<open>str.strip\<close>, \<open>str.rfind\<close>, \<open>os.path.splitext\<close>, the
  character classes of \<open>re\<close>) are Python's, restricted to that range; \<open>os.path\<close> is
  \<open>posixpath\<close>. In that range \<open>str.lower\<close> changes A-Z and the accented capitals only,
  \<open>\d\<close> is 0-9, and the white space is the control characters 9-13 and 28-31, the
  space, U+0085 and U+00A0.
\<close>

definition in_range :: "char \<Rightarrow> char \<Rightarrow> char \<Rightarrow> bool" where
  \<comment> \<open>\<open>lo <= c <= hi\<close> on code points, the meaning of \<open>lo-hi\<close> in a character class\<close>
  "in_range lo hi c = ((of_char lo :: nat) \<le> of_char c \<and> (of_char c :: nat) \<le> of_char hi)"

definition lower_char :: "char \<Rightarrow> char" where
  \<comment> \<open>the upper-case letters below U+0100 are A-Z and U+00C0-U+00DE without U+00D7\<close>
  "lower_char c =
     (let n = (of_char c :: nat)
      in if (65 \<le> n \<and> n \<le> 90) \<or> (192 \<le> n \<and> n \<le> 222 \<and> n \<noteq> 215)
         then char_of (n + 32) else c)"

definition lower :: "string \<Rightarrow> string" where
  \<comment> \<open>\<open>str.lower()\<close>\<close>
  "lower s = map lower_char s"

definition isspace :: "char \<Rightarrow> bool" where
  \<comment> \<open>the white space that \<open>str.strip()\<close> removes\<close>
  "isspace c =
     (let n = (of_char c :: nat)
      in (9 \<le> n \<and> n \<le> 13) \<or> (28 \<le> n \<and> n \<le> 32) \<or> n = 133 \<or> n = 160)"

definition strip_where :: "(char \<Rightarrow> bool) \<Rightarrow> string \<Rightarrow> string" where
  \<comment> \<open>\<open>str.strip\<close>: drop the characters of a set from both ends\<close>
  "strip_where P s = rev (dropWhile P (rev (dropWhile P s)))"

definition strip :: "string \<Rightarrow> string" where
  \<comment> \<open>\<open>s.strip()\<close>\<close>
  "strip s = strip_where isspace s"

fun rfind :: "string \<Rightarrow> char \<Rightarrow> int" where
  \<comment> \<open>\<open>p.rfind(c)\<close>: the highest index of \<open>c\<close>, or -1\<close>
  "rfind [] c = - 1"
| "rfind (x # xs) c =
     (let r = rfind xs c in if 0 \<le> r then r + 1 else if x = c then 0 else - 1)"

text \<open>
  \<open>genericpath._splitext\<close>, which \<open>posixpath.splitext\<close> calls with \<open>sep = '/'\<close>, no
  \<open>altsep\<close> and \<open>extsep = '.'\<close>: the extension starts at the last dot, unless that dot
  is before the last separator or only dots stand between the separator and it.
  \<^verbatim>\<open>
    sepIndex = p.rfind(sep)
    dotIndex = p.rfind(extsep)
    if dotIndex > sepIndex:
        filenameIndex = sepIndex + 1
        while filenameIndex < dotIndex:
            if p[filenameIndex:filenameIndex+1] != extsep:
                return p[:dotIndex], p[dotIndex:]
            filenameIndex += 1
    return p, p[:0]
  \<close>
  \<open>splitext_scan\<close> is the while loop; it tells whether the loop returns.
\<close>

function splitext_scan :: "string \<Rightarrow> nat \<Rightarrow> nat \<Rightarrow> bool" where
  "splitext_scan p filenameIndex dotIndex =
     (if filenameIndex < dotIndex
      then (if p ! filenameIndex \<noteq> CHR ''.'' then True
            else splitext_scan p (filenameIndex + 1) dotIndex)
      else False)"
  by pat_completeness auto
termination
  by (relation "measure (\<lambda>(p, i, d). d - i)") auto

definition splitext :: "string \<Rightarrow> string \<times> string" where
  "splitext p =
     (let sepIndex = rfind p CHR ''/'';
          dotIndex = rfind p CHR ''.''
      in if dotIndex > sepIndex \<and> splitext_scan p (nat (sepIndex + 1)) (nat dotIndex)
         then (take (nat dotIndex) p, drop (nat dotIndex) p)
         else (p, []))"

section \<open>Filename canonicalizer: \<open>to_kebab_case\<close>\<close>

definition is_ascii_alnum :: "char \<Rightarrow> bool" where
  \<comment> \<open>the class \<open>[a-zA-Z0-9]\<close>\<close>
  "is_ascii_alnum c =
     (in_range CHR ''a'' CHR ''z'' c \<or> in_range CHR ''A'' CHR ''Z'' c \<or>
      in_range CHR ''0'' CHR ''9'' c)"

text \<open>
  \<open>re.sub(r'-+', '-', kebab)\<close>: scanning from the left, every maximal run of hyphens is
  replaced by one hyphen; the other characters are copied.
\<close>

function sub_hyphen_runs :: "string \<Rightarrow> string" where
  "sub_hyphen_runs [] = []"
| "sub_hyphen_runs (c # cs) =
     (if c = CHR ''-''
      then CHR ''-'' # sub_hyphen_runs (dropWhile (\<lambda>x. x = CHR ''-'') cs)
      else c # sub_hyphen_runs cs)"
  by pat_completeness auto
termination
  by (relation "measure length") (auto simp: length_dropWhile_le less_Suc_eq_le)

definition to_kebab_case :: "string \<Rightarrow> string" where
  "to_kebab_case filename =
     (let base_name = fst (splitext filename);
          kebab = map (\<lambda>c. if is_ascii_alnum c then c else CHR ''-'') base_name;
          kebab = sub_hyphen_runs kebab;
          kebab = strip_where (\<lambda>c. c = CHR ''-'') kebab
      in lower kebab)"

section \<open>Format detector: \<open>is_already_formatted\<close>\<close>

text \<open>
  The pattern is a value of a small type of regular expressions. A character class is a
  list of ranges. \<open>matches\<close> decides by derivatives whether the whole string is in the
  pattern's language (\<open>lang\<close>, below); a backtracking matcher finds a match exactly when
  there is one, so this is what \<open>bool(re.match(...))\<close> returns for an anchored pattern.
\<close>

datatype rx =
    Nothing
  | Empty
  | Chars "(char \<times> char) list"
  | Then rx rx
  | Or rx rx
  | Many rx

definition in_class :: "(char \<times> char) list \<Rightarrow> char \<Rightarrow> bool" where
  "in_class rs c = list_ex (\<lambda>(lo, hi). in_range lo hi c) rs"

fun nullable :: "rx \<Rightarrow> bool" where
  "nullable Nothing = False"
| "nullable Empty = True"
| "nullable (Chars rs) = False"
| "nullable (Then r s) = (nullable r \<and> nullable s)"
| "nullable (Or r s) = (nullable r \<or> nullable s)"
| "nullable (Many r) = True"

fun deriv :: "char \<Rightarrow> rx \<Rightarrow> rx" where
  "deriv c Nothing = Nothing"
| "deriv c Empty = Nothing"
| "deriv c (Chars rs) = (if in_class rs c then Empty else Nothing)"
| "deriv c (Then r s) =
     (if nullable r then Or (Then (deriv c r) s) (deriv c s) else Then (deriv c r) s)"
| "deriv c (Or r s) = Or (deriv c r) (deriv c s)"
| "deriv c (Many r) = Then (deriv c r) (Many r)"

fun matches :: "rx \<Rightarrow> string \<Rightarrow> bool" where
  "matches r [] = nullable r"
| "matches r (c # cs) = matches (deriv c r) cs"

definition lit :: "char \<Rightarrow> rx" where
  \<comment> \<open>one literal character\<close>
  "lit c = Chars [(c, c)]"

definition rx_plus :: "rx \<Rightarrow> rx" where
  \<comment> \<open>\<open>r+\<close>\<close>
  "rx_plus r = Then r (Many r)"

fun rx_times :: "nat \<Rightarrow> rx \<Rightarrow> rx" where
  \<comment> \<open>\<open>r{n}\<close>\<close>
  "rx_times 0 r = Empty"
| "rx_times (Suc n) r = Then r (rx_times n r)"

fun rx_word :: "string \<Rightarrow> rx" where
  \<comment> \<open>a sequence of literal characters\<close>
  "rx_word [] = Empty"
| "rx_word (c # cs) = Then (lit c) (rx_word cs)"

definition re_match_to_end :: "rx \<Rightarrow> string \<Rightarrow> bool" where
  \<comment> \<open>\<open>bool(re.match('^' + r + '$', s))\<close>: without \<open>re.MULTILINE\<close>, \<open>$\<close> matches at the end
      of the string and also just before a newline that ends the string\<close>
  "re_match_to_end r s =
     (matches r s \<or> (s \<noteq> [] \<and> last s = CHR 0x0A \<and> matches r (butlast s)))"

definition digit :: rx where
  \<comment> \<open>\<open>\d\<close>: below U+0100 the decimal digits are 0-9\<close>
  "digit = Chars [(CHR ''0'', CHR ''9'')]"

definition lower_alnum :: rx where
  \<comment> \<open>\<open>[a-z0-9]\<close>\<close>
  "lower_alnum = Chars [(CHR ''a'', CHR ''z''), (CHR ''0'', CHR ''9'')]"

definition pattern :: rx where
  \<comment> \<open>\<open>(\d{6})-([a-z0-9]+-)*[a-z0-9]+\.pdf\<close>, between \<open>^\<close> and \<open>$\<close>\<close>
  "pattern =
     Then (rx_times 6 digit)
       (Then (lit CHR ''-'')
          (Then (Many (Then (rx_plus lower_alnum) (lit CHR ''-'')))
             (Then (rx_plus lower_alnum) (rx_word ''.pdf''))))"

definition is_already_formatted :: "string \<Rightarrow> bool" where
  "is_already_formatted filename = re_match_to_end pattern (lower filename)"

section \<open>The language of a pattern\<close>

text \<open>
  The meaning of a pattern is a set of strings; \<open>star A\<close> is the set of concatenations of
  strings of \<open>A\<close>. These sets are used in proofs only: the program is \<open>matches\<close>.
\<close>

inductive_set star :: "string set \<Rightarrow> string set" for A :: "string set" where
  star_empty: "[] \<in> star A"
| star_step: "u \<in> A \<Longrightarrow> v \<in> star A \<Longrightarrow> u @ v \<in> star A"

fun lang :: "rx \<Rightarrow> string set" where
  "lang Nothing = {}"
| "lang Empty = {[]}"
| "lang (Chars rs) = {[c] | c. in_class rs c}"
| "lang (Then r s) = {u @ v | u v. u \<in> lang r \<and> v \<in> lang s}"
| "lang (Or r s) = lang r \<union> lang s"
| "lang (Many r) = star (lang r)"

section \<open>Predicates used in the statements\<close>

text \<open>
  \<open>slug_char\<close> is the class \<open>[a-z0-9-]\<close> of the canonicalizer's output; \<open>six_digit_date\<close>
  is the invoice date string \<open>^\d{6}$\<close> of the data model, six ASCII digits.
\<close>

definition slug_char :: "char \<Rightarrow> bool" where
  "slug_char c =
     (in_range CHR ''a'' CHR ''z'' c \<or> in_range CHR ''0'' CHR ''9'' c \<or> c = CHR ''-'')"

text \<open>
  The equation of \<open>splitext_scan\<close> is unfolded by hand, one iteration at a time.
\<close>

declare splitext_scan.simps [simp del]

definition six_digit_date :: "string \<Rightarrow> bool" where
  "six_digit_date d = (length d = 6 \<and> list_all (in_range CHR ''0'' CHR ''9'') d)"

section \<open>Paths: \<open>pathlib\<close>\<close>

text \<open>
  A \<open>path\<close> is a \<open>pathlib.PurePosixPath\<close> as the library holds it: the root (empty,
  \<open>/\<close> or \<open>//\<close>) and the list of components. \<open>parse_path\<close> is the parsing of a string
  (\<open>splitroot\<close>, then the split at \<open>/\<close> without the empty components and without
  \<open>.\<close>); \<open>Path s\<close> is \<open>Path(s)\<close>; \<open>joinpath p key\<close> is \<open>p / key\<close>, where a key with a root
  replaces \<open>p\<close> and any other key appends its components; \<open>child p entry\<close> is the
  path that \<open>glob\<close> yields for a directory entry, the entry appended as one component;
  \<open>name\<close> and \<open>parent\<close> are the properties of those names. \<open>..\<close> is kept as a
  component, as \<open>pathlib\<close> keeps it.
\<close>

type_synonym path = "string \<times> string list"

function split_sep :: "string \<Rightarrow> string list" where
  "split_sep s =
     (case dropWhile (\<lambda>c. c \<noteq> CHR ''/'') s of
        [] \<Rightarrow> [s]
      | c # rest \<Rightarrow> takeWhile (\<lambda>c. c \<noteq> CHR ''/'') s # split_sep rest)"
  by pat_completeness auto

termination
proof (relation "measure length")
  show "wf (measure length)" by simp
next
  fix s :: string and c rest
  assume "dropWhile (\<lambda>c. c \<noteq> CHR ''/'') s = c # rest"
  then have "length (c # rest) \<le> length s"
    using length_dropWhile_le [of "\<lambda>c. c \<noteq> CHR ''/''" s] by simp
  then show "(rest, s) \<in> measure length" by simp
qed

text \<open>
  The equation of \<open>split_sep\<close> is unfolded by hand.
\<close>

declare split_sep.simps [simp del]

definition splitroot :: "string \<Rightarrow> string \<times> string" where
  "splitroot part =
     (if part \<noteq> [] \<and> hd part = CHR ''/''
      then (let stripped_part = dropWhile (\<lambda>c. c = CHR ''/'') part
            in if length part - length stripped_part = 2
               then (''//'', stripped_part)
               else (''/'', stripped_part))
      else ([], part))"

definition parse_path :: "string \<Rightarrow> path" where
  "parse_path s =
     (case splitroot s of
        (root, rel) \<Rightarrow> (root, filter (\<lambda>x. x \<noteq> [] \<and> x \<noteq> ''.'') (split_sep rel)))"

definition Path :: "string \<Rightarrow> path" where
  "Path s = parse_path s"

definition joinpath :: "path \<Rightarrow> string \<Rightarrow> path" where
  "joinpath p key =
     (let q = parse_path key in if fst q \<noteq> [] then q else (fst p, snd p @ snd q))"

definition child :: "path \<Rightarrow> string \<Rightarrow> path" where
  "child p entry = (fst p, snd p @ [entry])"

definition name :: "path \<Rightarrow> string" where
  "name p = (if snd p = [] then [] else last (snd p))"

definition parent :: "path \<Rightarrow> path" where
  "parent p = (fst p, butlast (snd p))"

section \<open>Batch processor: the world, the state and \<open>process_pdf_directory\<close>\<close>

text \<open>
  An \<open>exn\<close> is a raised exception of class \<open>Exception\<close>, the class that the handler of
  the per-file loop catches: a missing file, \<open>None + str\<close> (\<open>TypeError\<close>), an index out of
  range, and \<open>Raised\<close> for whatever a library raises (network, HTTP, PDF parsing, the
  operating system).
\<close>

datatype exn =
    FileNotFoundError path
  | TypeError
  | IndexError
  | Raised string

datatype client = Anthropic "string option"

text \<open>
  The \<open>print\<close> statements of \<open>main.py\<close>, by format string, with their arguments; and the
  effects of a run in the order they happen: the construction of the cloud client, the
  HTTP requests to the local server, the cloud request, the call of \<open>Path.rename\<close>, and
  the printed lines.
\<close>

datatype message =
    NoPdfFilesFound string
  | FoundPdfFiles nat
  | Skipping path
  | Renamed path path
  | ErrorProcessing path exn

datatype event =
    ClientCreated client
  | HttpGet string
  | HttpPost string "string option" string
  | MessagesCreate client "string option" string
  | PathRename path path
  | Print message

text \<open>
  Everything outside the program is a \<open>world\<close>: the environment as \<open>os.getenv\<close> reads it
  once \<open>load_dotenv()\<close> has run, the entries of a directory in enumeration order, the
  status code of \<open>requests.get(url, timeout=2)\<close>, the page texts of \<open>fitz.open\<close> on a
  file's bytes, the \<open>response\<close> field of \<open>requests.post(...).json()\<close>,
  \<open>base64.b64encode\<close>, the texts of the content blocks of \<open>messages.create\<close>, and
  whether the operating system refuses a rename. Each call that can raise returns a sum.
  The \<open>state\<close> is what a run changes: the files (path to bytes, a file being identified
  by its path as \<open>pathlib\<close> holds it) and the trace of events.
  Constructing the client and listing the directory are taken not to raise: the first
  makes no request, and \<open>glob\<close> on a missing directory yields nothing.
\<close>

record world =
  environ :: "string \<rightharpoonup> string"
  listdir :: "string \<Rightarrow> string list"
  requests_get :: "string \<Rightarrow> exn + nat"
  fitz_open :: "string \<Rightarrow> exn + string list"
  requests_post :: "string \<Rightarrow> string option \<Rightarrow> string \<Rightarrow> exn + string"
  b64encode :: "string \<Rightarrow> string"
  messages_create :: "client \<Rightarrow> string option \<Rightarrow> string \<Rightarrow> exn + string list"
  os_rename :: "(path \<rightharpoonup> string) \<Rightarrow> path \<Rightarrow> path \<Rightarrow> exn option"

record state =
  files :: "path \<rightharpoonup> string"
  trace :: "event list"

definition emit :: "event \<Rightarrow> state \<Rightarrow> state" where
  "emit e st = st\<lparr>trace := trace st @ [e]\<rparr>"

text \<open>
  The truth value Python gives to \<open>os.getenv(...)\<close>: \<open>None\<close> and the empty string are false.
\<close>

definition truthy :: "string option \<Rightarrow> bool" where
  "truthy v = (case v of None \<Rightarrow> False | Some s \<Rightarrow> s \<noteq> [])"

text \<open>
  Lines 20-28: open the file, concatenate the text of its pages in order.
\<close>

definition extract_pdf_text_for_ollama_ai :: "world \<Rightarrow> path \<Rightarrow> state \<Rightarrow> exn + string" where
  "extract_pdf_text_for_ollama_ai w file_path st =
     (case files st file_path of
        None \<Rightarrow> Inl (FileNotFoundError file_path)
      | Some bytes \<Rightarrow>
          (case fitz_open w bytes of
             Inl e \<Rightarrow> Inl e
           | Inr doc \<Rightarrow> Inr (concat doc)))"

text \<open>
  Lines 31-43: the prompt is the f-string of the source; the URL is
  \<open>os.getenv("OLLAMA_API_URL") + "/generate"\<close>; the \<open>response\<close> field is returned stripped.
\<close>

definition prompt :: "string \<Rightarrow> string" where
  "prompt text =
     ''The following is the text of an invoice. Extract the **invoice date** only and return nothing but the invoice date in format YYMMDD.'' @
     [CHR 0x0A, CHR 0x0A] @ ''--- BEGIN INVOICE TEXT ---'' @ [CHR 0x0A] @ text @ [CHR 0x0A] @
     ''--- END INVOICE TEXT ---''"

definition ask_ollama_for_date ::
  "world \<Rightarrow> string \<Rightarrow> string option \<Rightarrow> state \<Rightarrow> (exn + string) \<times> state" where
  "ask_ollama_for_date w text model st =
     (case environ w ''OLLAMA_API_URL'' of
        None \<Rightarrow> (Inl TypeError, st)
      | Some base \<Rightarrow>
          (let url = base @ ''/generate'';
               st1 = emit (HttpPost url model (prompt text)) st
           in case requests_post w url model (prompt text) of
                Inl e \<Rightarrow> (Inl e, st1)
              | Inr response \<Rightarrow> (Inr (strip response), st1)))"

text \<open>
  Lines 46-53: \<open>True\<close> when the GET of the version endpoint answers 200; the bare
  \<open>except\<close> turns every exception, also the \<open>TypeError\<close> of an unset URL, into \<open>False\<close>.
\<close>

definition is_ollama_running :: "world \<Rightarrow> state \<Rightarrow> bool \<times> state" where
  "is_ollama_running w st =
     (case environ w ''OLLAMA_API_URL'' of
        None \<Rightarrow> (False, st)
      | Some base \<Rightarrow>
          (let url = base @ ''/version'';
               st1 = emit (HttpGet url) st
           in case requests_get w url of
                Inl e \<Rightarrow> (False, st1)
              | Inr status_code \<Rightarrow> (status_code = 200, st1)))"

text \<open>
  Lines 60-94: read and encode the bytes; one \<open>messages.create\<close> request with the model of
  \<open>ANTHROPIC_MODEL\<close>; the answer is \<open>message.content[0].text\<close>, an \<open>IndexError\<close> when
  there is no content block. Lines 97-100: the client holds the key of the environment.
\<close>

definition load_pdf_data_for_remote_ai :: "world \<Rightarrow> path \<Rightarrow> state \<Rightarrow> exn + string" where
  "load_pdf_data_for_remote_ai w pdf_file_path st =
     (case files st pdf_file_path of
        None \<Rightarrow> Inl (FileNotFoundError pdf_file_path)
      | Some bytes \<Rightarrow> Inr (b64encode w bytes))"

definition determine_invoice_date_remote_ai ::
  "world \<Rightarrow> client \<Rightarrow> string \<Rightarrow> state \<Rightarrow> (exn + string) \<times> state" where
  "determine_invoice_date_remote_ai w ai_client pdf_data st =
     (let model = environ w ''ANTHROPIC_MODEL'';
          st1 = emit (MessagesCreate ai_client model pdf_data) st
      in case messages_create w ai_client model pdf_data of
           Inl e \<Rightarrow> (Inl e, st1)
         | Inr content \<Rightarrow>
             (case content of
                [] \<Rightarrow> (Inl IndexError, st1)
              | text # rest \<Rightarrow> (Inr text, st1)))"

definition get_remote_ai_client :: "world \<Rightarrow> state \<Rightarrow> client \<times> state" where
  "get_remote_ai_client w st =
     (let c = Anthropic (environ w ''ANTHROPIC_API_KEY'') in (c, emit (ClientCreated c) st))"

text \<open>
  Lines 107-110: \<open>glob("*.pdf")\<close> then \<open>glob("*.PDF")\<close>, each in enumeration order. On a
  case-sensitive file system a name matches \<open>*.pdf\<close> exactly when it ends with \<open>.pdf\<close>.
\<close>

definition endswith :: "string \<Rightarrow> string \<Rightarrow> bool" where
  "endswith s e = (length e \<le> length s \<and> drop (length s - length e) s = e)"

definition get_pdf_files :: "world \<Rightarrow> string \<Rightarrow> path list" where
  "get_pdf_files w directory =
     map (child (Path directory)) (filter (\<lambda>n. endswith n ''.pdf'') (listdir w directory)) @
     map (child (Path directory)) (filter (\<lambda>n. endswith n ''.PDF'') (listdir w directory))"

text \<open>
  \<open>Path.rename\<close> of line 154, with POSIX semantics: the source must exist, the target is
  replaced, and the operating system may refuse (\<open>os_rename\<close>). Lines 138-155:
  \<open>new_path\<close> is the local variable of that name, \<open>directory / new_filename\<close> with
  \<open>directory = pdf_path.parent\<close>; \<open>rename_pdf_with_date\<close> renames and prints.
\<close>

definition path_rename :: "world \<Rightarrow> path \<Rightarrow> path \<Rightarrow> state \<Rightarrow> (exn + unit) \<times> state" where
  "path_rename w src dst st =
     (let st1 = emit (PathRename src dst) st
      in case files st src of
           None \<Rightarrow> (Inl (FileNotFoundError src), st1)
         | Some bytes \<Rightarrow>
             (case os_rename w (files st) src dst of
                Some e \<Rightarrow> (Inl e, st1)
              | None \<Rightarrow> (Inr (), st1\<lparr>files := ((files st)(src := None))(dst \<mapsto> bytes)\<rparr>)))"

definition new_path :: "path \<Rightarrow> string \<Rightarrow> path" where
  "new_path pdf_path invoice_date =
     (let directory = parent pdf_path;
          filename = name pdf_path;
          kebab_name = to_kebab_case filename;
          new_filename = invoice_date @ ''-'' @ kebab_name @ ''.pdf''
      in joinpath directory new_filename)"

definition rename_pdf_with_date ::
  "world \<Rightarrow> path \<Rightarrow> string \<Rightarrow> state \<Rightarrow> (exn + unit) \<times> state" where
  "rename_pdf_with_date w pdf_path invoice_date st =
     (case path_rename w pdf_path (new_path pdf_path invoice_date) st of
        (Inl e, st1) \<Rightarrow> (Inl e, st1)
      | (Inr u, st1) \<Rightarrow>
          (Inr (), emit (Print (Renamed pdf_path (new_path pdf_path invoice_date))) st1))"

text \<open>
  Lines 186-195, the branch on \<open>ollama_is_available\<close> inside the loop; lines 181-198, the
  body of the \<open>try\<close> (\<open>try_file\<close>); lines 180-201, the \<open>try\<close> with its handler
  (\<open>process_file\<close>); line 179, the loop (\<open>process_files\<close>); lines 172-176, the selection
  (\<open>ollama_is_available\<close>: \<open>and\<close> evaluates the probe only when both variables are true);
  lines 158-201, \<open>process_pdf_directory\<close>.
\<close>

definition extract_invoice_date ::
  "world \<Rightarrow> client \<Rightarrow> bool \<Rightarrow> path \<Rightarrow> state \<Rightarrow> (exn + string) \<times> state" where
  "extract_invoice_date w client ollama_is_available pdf_path st =
     (if ollama_is_available
      then (case extract_pdf_text_for_ollama_ai w pdf_path st of
              Inl e \<Rightarrow> (Inl e, st)
            | Inr text \<Rightarrow> ask_ollama_for_date w text (environ w ''OLLAMA_MODEL'') st)
      else (case load_pdf_data_for_remote_ai w pdf_path st of
              Inl e \<Rightarrow> (Inl e, st)
            | Inr pdf_data \<Rightarrow> determine_invoice_date_remote_ai w client pdf_data st))"

definition try_file ::
  "world \<Rightarrow> client \<Rightarrow> bool \<Rightarrow> path \<Rightarrow> state \<Rightarrow> (exn + unit) \<times> state" where
  "try_file w client ollama_is_available pdf_path st =
     (if is_already_formatted (name pdf_path)
      then (Inr (), emit (Print (Skipping pdf_path)) st)
      else (case extract_invoice_date w client ollama_is_available pdf_path st of
              (Inl e, st1) \<Rightarrow> (Inl e, st1)
            | (Inr invoice_date, st1) \<Rightarrow> rename_pdf_with_date w pdf_path invoice_date st1))"

definition process_file :: "world \<Rightarrow> client \<Rightarrow> bool \<Rightarrow> path \<Rightarrow> state \<Rightarrow> state" where
  "process_file w client ollama_is_available pdf_path st =
     (case try_file w client ollama_is_available pdf_path st of
        (Inl e, st1) \<Rightarrow> emit (Print (ErrorProcessing pdf_path e)) st1
      | (Inr u, st1) \<Rightarrow> st1)"

fun process_files :: "world \<Rightarrow> client \<Rightarrow> bool \<Rightarrow> path list \<Rightarrow> state \<Rightarrow> state" where
  "process_files w client ollama_is_available [] st = st"
| "process_files w client ollama_is_available (pdf_path # rest) st =
     process_files w client ollama_is_available rest
       (process_file w client ollama_is_available pdf_path st)"

definition ollama_is_available :: "world \<Rightarrow> state \<Rightarrow> bool \<times> state" where
  "ollama_is_available w st =
     (if truthy (environ w ''OLLAMA_API_URL'') \<and> truthy (environ w ''OLLAMA_MODEL'')
      then is_ollama_running w st
      else (False, st))"

definition process_pdf_directory :: "world \<Rightarrow> string \<Rightarrow> state \<Rightarrow> state" where
  "process_pdf_directory w directory st =
     (case get_remote_ai_client w st of
        (client, st1) \<Rightarrow>
          (let pdf_files = get_pdf_files w directory
           in if pdf_files = []
              then emit (Print (NoPdfFilesFound directory)) st1
              else (case ollama_is_available w (emit (Print (FoundPdfFiles (length pdf_files))) st1) of
                      (available, st2) \<Rightarrow> process_files w client available pdf_files st2)))"

section \<open>Classes of events\<close>

text \<open>
  \<open>is_probe\<close>: the liveness probe. \<open>is_local_request\<close>, \<open>is_cloud_request\<close>: a date
  extraction request of the local or of the cloud variant. \<open>uses_only local\<close>: an event
  that is no probe and no request of the other variant.
\<close>

fun is_probe :: "event \<Rightarrow> bool" where
  "is_probe (HttpGet url) = True"
| "is_probe e = False"

fun is_local_request :: "event \<Rightarrow> bool" where
  "is_local_request (HttpPost url model p) = True"
| "is_local_request e = False"

fun is_cloud_request :: "event \<Rightarrow> bool" where
  "is_cloud_request (MessagesCreate c model data) = True"
| "is_cloud_request e = False"

definition uses_only :: "bool \<Rightarrow> event \<Rightarrow> bool" where
  "uses_only local e =
     (\<not> is_probe e \<and> (if local then \<not> is_cloud_request e else \<not> is_local_request e))"

section \<open>Example worlds and directories\<close>

text \<open>
  \<open>cloud_world\<close>: no local server is configured, the cloud answers \<open>250315\<close>.
  \<open>local_world\<close>: the local server is configured and alive, and answers with a date
  that is not six digits. \<open>failing_world\<close>: nothing is configured, every request raises,
  and the directory holds no PDF. \<open>collision_world\<close>: \<open>cloud_world\<close> with two files whose
  slugs agree. \<open>idle_world\<close>: \<open>local_world\<close> with a directory that holds no PDF.
  \<open>slash_world\<close>: \<open>local_world\<close> with the answer \<open>15/03/2025\<close>. \<open>one_unnamed\<close>: a
  directory with the one file \<open>_.pdf\<close>.
\<close>

definition cloud_world :: world where
  "cloud_world =
     \<lparr>environ = [''ANTHROPIC_API_KEY'' \<mapsto> ''key'', ''ANTHROPIC_MODEL'' \<mapsto> ''model''],
      listdir = (\<lambda>d. [''Invoice March.pdf'', ''250101-already-done.pdf'']),
      requests_get = (\<lambda>url. Inl (Raised ''connection refused'')),
      fitz_open = (\<lambda>bytes. Inr [bytes]),
      requests_post = (\<lambda>url model p. Inl (Raised ''connection refused'')),
      b64encode = (\<lambda>bytes. bytes),
      messages_create = (\<lambda>c model data. Inr [''250315'']),
      os_rename = (\<lambda>fs src dst. None)\<rparr>"

definition two_invoices :: state where
  "two_invoices =
     \<lparr>files = [child (Path ''inv'') ''Invoice March.pdf'' \<mapsto> ''%PDF-1'',
               child (Path ''inv'') ''250101-already-done.pdf'' \<mapsto> ''%PDF-2''],
      trace = []\<rparr>"

definition local_world :: world where
  "local_world =
     \<lparr>environ = [''OLLAMA_API_URL'' \<mapsto> ''http://localhost:11434/api'',
                 ''OLLAMA_MODEL'' \<mapsto> ''llama3''],
      listdir = (\<lambda>d. [''Invoice March.pdf'', ''250101-already-done.pdf'']),
      requests_get = (\<lambda>url. Inr 200),
      fitz_open = (\<lambda>bytes. Inr [bytes]),
      requests_post = (\<lambda>url model p. Inr '' 15 March 2025 ''),
      b64encode = (\<lambda>bytes. bytes),
      messages_create = (\<lambda>c model data. Inl (Raised ''authentication error'')),
      os_rename = (\<lambda>fs src dst. None)\<rparr>"

definition failing_world :: world where
  "failing_world =
     \<lparr>environ = Map.empty,
      listdir = (\<lambda>d. [''notes.txt'']),
      requests_get = (\<lambda>url. Inl (Raised ''connection refused'')),
      fitz_open = (\<lambda>bytes. Inr [bytes]),
      requests_post = (\<lambda>url model p. Inl (Raised ''connection refused'')),
      b64encode = (\<lambda>bytes. bytes),
      messages_create = (\<lambda>c model data. Inl (Raised ''connection error'')),
      os_rename = (\<lambda>fs src dst. None)\<rparr>"

definition collision_world :: world where
  "collision_world = cloud_world\<lparr>listdir := (\<lambda>d. [''a b.pdf'', ''a_b.pdf''])\<rparr>"

definition two_similar :: state where
  "two_similar =
     \<lparr>files = [child (Path ''inv'') ''a b.pdf'' \<mapsto> ''%PDF-1'',
               child (Path ''inv'') ''a_b.pdf'' \<mapsto> ''%PDF-2''],
      trace = []\<rparr>"

definition idle_world :: world where
  "idle_world = local_world\<lparr>listdir := (\<lambda>d. [''notes.txt''])\<rparr>"

definition one_unnamed :: state where
  "one_unnamed = \<lparr>files = [child (Path ''inv'') ''_.pdf'' \<mapsto> ''%PDF-1''], trace = []\<rparr>"


section \<open>Matching by derivatives decides the language\<close>

lemma nullable_lang: "nullable r \<longleftrightarrow> [] \<in> lang r"
  by (induction r) (auto intro: star_empty)

lemma star_cons_split:
  assumes "w \<in> star A" and "w = c # t"
  shows "\<exists>u v. t = u @ v \<and> c # u \<in> A \<and> v \<in> star A"
  using assms
proof (induction arbitrary: t rule: star.induct)
  case star_empty
  then show ?case by simp
next
  case (star_step u v)
  show ?case
  proof (cases u)
    case Nil
    with star_step show ?thesis by simp
  next
    case (Cons a u')
    with star_step.prems have "a = c" and "t = u' @ v" by simp_all
    with Cons star_step.hyps show ?thesis by blast
  qed
qed

lemma deriv_lang: "lang (deriv c r) = {w. c # w \<in> lang r}"
proof (induction r)
  case (Then r1 r2)
  show ?case
  proof (rule set_eqI)
    fix w
    show "w \<in> lang (deriv c (Then r1 r2)) \<longleftrightarrow> w \<in> {w. c # w \<in> lang (Then r1 r2)}"
      using Then by (auto simp: nullable_lang Cons_eq_append_conv)
  qed
next
  case (Many r)
  show ?case
  proof (rule set_eqI)
    fix w
    show "w \<in> lang (deriv c (Many r)) \<longleftrightarrow> w \<in> {w. c # w \<in> lang (Many r)}"
    proof
      assume "w \<in> lang (deriv c (Many r))"
      then obtain u v where "w = u @ v" "c # u \<in> lang r" "v \<in> star (lang r)"
        using Many by auto
      then have "(c # u) @ v \<in> star (lang r)" by (blast intro: star_step)
      with \<open>w = u @ v\<close> show "w \<in> {w. c # w \<in> lang (Many r)}" by simp
    next
      assume "w \<in> {w. c # w \<in> lang (Many r)}"
      then have "c # w \<in> star (lang r)" by simp
      from star_cons_split [OF this refl]
      obtain u v where "w = u @ v" "c # u \<in> lang r" "v \<in> star (lang r)" by blast
      then show "w \<in> lang (deriv c (Many r))" using Many by auto
    qed
  qed
qed auto

lemma matches_lang: "matches r w \<longleftrightarrow> w \<in> lang r"
  by (induction w arbitrary: r) (simp_all add: nullable_lang deriv_lang)

section \<open>Characters\<close>

lemma of_char_eq_iff_nat: "((of_char c :: nat) = of_char d) \<longleftrightarrow> c = d"
  by simp

lemma hyphen_code: "(of_char c :: nat) = 45 \<longleftrightarrow> c = CHR ''-''"
  using of_char_eq_iff_nat [of c "CHR ''-''"] by simp

lemma of_char_lower_char:
  "(of_char (lower_char c) :: nat) =
     (if (65 \<le> (of_char c :: nat) \<and> (of_char c :: nat) \<le> 90) \<or>
         (192 \<le> (of_char c :: nat) \<and> (of_char c :: nat) \<le> 222 \<and> (of_char c :: nat) \<noteq> 215)
      then of_char c + 32 else of_char c)"
  by (auto simp: lower_char_def Let_def)

lemma lower_char_hyphen: "lower_char c = CHR ''-'' \<longleftrightarrow> c = CHR ''-''"
  using of_char_lower_char [of c]
  by (auto simp flip: hyphen_code split: if_splits)

lemma slug_char_lower_char:
  "is_ascii_alnum c \<or> c = CHR ''-'' \<Longrightarrow> slug_char (lower_char c)"
  using of_char_lower_char [of c]
  by (auto simp: slug_char_def is_ascii_alnum_def in_range_def lower_char_hyphen split: if_splits)

lemma lower_char_slug_char: "slug_char c \<Longrightarrow> lower_char c = c"
  by (auto simp: slug_char_def in_range_def lower_char_def Let_def simp flip: hyphen_code)

lemma slug_char_alnum: "slug_char c \<Longrightarrow> c \<noteq> CHR ''-'' \<Longrightarrow> is_ascii_alnum c"
  by (auto simp: slug_char_def is_ascii_alnum_def)

lemma slug_char_no_dot: "slug_char c \<Longrightarrow> c \<noteq> CHR ''.'' \<and> c \<noteq> CHR ''/''"
  by (auto simp: slug_char_def in_range_def)

section \<open>Hyphen runs, stripping and lower-casing\<close>

lemma prefix_hyphen_iff: "prefix ''-'' s \<longleftrightarrow> (\<exists>t. s = CHR ''-'' # t)"
  by (cases s) auto

lemma sublist_hyphens_Cons:
  "sublist ''--'' (c # s) \<longleftrightarrow> (c = CHR ''-'' \<and> prefix ''-'' s) \<or> sublist ''--'' s"
  by (cases s) (auto simp: sublist_Cons_right)

lemma not_prefix_dropWhile: "\<not> prefix [c] (dropWhile (\<lambda>x. x = c) s)"
  by (induction s) auto

lemma set_sub_hyphen_runs: "set (sub_hyphen_runs s) \<subseteq> set s"
proof (induction s rule: sub_hyphen_runs.induct)
  case 1
  show ?case by simp
next
  case (2 c cs)
  have "set (dropWhile (\<lambda>x. x = CHR ''-'') cs) \<subseteq> set cs"
    by (auto dest: set_dropWhileD)
  with 2 show ?case by auto
qed

lemma sub_hyphen_runs_keeps:
  "c \<in> set s \<Longrightarrow> c \<noteq> CHR ''-'' \<Longrightarrow> c \<in> set (sub_hyphen_runs s)"
proof (induction s rule: sub_hyphen_runs.induct)
  case 1
  then show ?case by simp
next
  case (2 x xs)
  show ?case
  proof (cases "x = CHR ''-''")
    case True
    with 2 have "c \<in> set xs" by auto
    moreover have "xs = takeWhile (\<lambda>x. x = CHR ''-'') xs @ dropWhile (\<lambda>x. x = CHR ''-'') xs"
      by simp
    ultimately have "c \<in> set (takeWhile (\<lambda>x. x = CHR ''-'') xs) \<or>
        c \<in> set (dropWhile (\<lambda>x. x = CHR ''-'') xs)"
      by (metis Un_iff set_append)
    with 2 True have "c \<in> set (dropWhile (\<lambda>x. x = CHR ''-'') xs)"
      by (auto dest: set_takeWhileD)
    with 2 True show ?thesis by simp
  next
    case False
    with 2 show ?thesis by auto
  qed
qed

lemma sub_hyphen_runs_prefix:
  "prefix ''-'' (sub_hyphen_runs s) \<longleftrightarrow> prefix ''-'' s"
  by (cases s) auto

lemma sub_hyphen_runs_no_double: "\<not> sublist ''--'' (sub_hyphen_runs s)"
proof (induction s rule: sub_hyphen_runs.induct)
  case 1
  show ?case by simp
next
  case (2 c cs)
  show ?case
  proof (cases "c = CHR ''-''")
    case True
    with 2 show ?thesis
      by (simp add: sublist_hyphens_Cons sub_hyphen_runs_prefix not_prefix_dropWhile)
  next
    case False
    with 2 show ?thesis by (simp add: sublist_hyphens_Cons)
  qed
qed

lemma sub_hyphen_runs_id: "\<not> sublist ''--'' s \<Longrightarrow> sub_hyphen_runs s = s"
proof (induction s rule: sub_hyphen_runs.induct)
  case 1
  show ?case by simp
next
  case (2 c cs)
  show ?case
  proof (cases "c = CHR ''-''")
    case True
    with "2.prems" have np: "\<not> prefix ''-'' cs" and ns: "\<not> sublist ''--'' cs"
      by (simp_all add: sublist_hyphens_Cons)
    from np have "dropWhile (\<lambda>x. x = CHR ''-'') cs = cs" by (cases cs) auto
    with 2 True ns show ?thesis by simp
  next
    case False
    with 2 show ?thesis by (simp add: sublist_hyphens_Cons)
  qed
qed

lemma set_strip_where: "set (strip_where P s) \<subseteq> set s"
  unfolding strip_where_def by (auto dest!: set_dropWhileD)

lemma rev_dropWhile_takeWhile:
  "rev (dropWhile P (rev u)) @ rev (takeWhile P (rev u)) = u"
proof -
  have "rev (dropWhile P (rev u)) @ rev (takeWhile P (rev u)) =
      rev (takeWhile P (rev u) @ dropWhile P (rev u))"
    by (simp only: rev_append)
  then show ?thesis by simp
qed

lemma strip_where_split:
  "\<exists>a b. a @ strip_where P s @ b = s \<and> list_all P a \<and> list_all P b"
proof -
  let ?u = "dropWhile P s"
  have "takeWhile P s @ strip_where P s @ rev (takeWhile P (rev ?u)) = s"
    by (simp add: strip_where_def rev_dropWhile_takeWhile)
  moreover have "list_all P (takeWhile P s)"
    by (auto simp: list_all_iff dest: set_takeWhileD)
  moreover have "list_all P (rev (takeWhile P (rev ?u)))"
    by (auto simp: list_all_iff dest: set_takeWhileD)
  ultimately show ?thesis by blast
qed

lemma strip_where_keeps:
  assumes "c \<in> set s" and "\<not> P c"
  shows "c \<in> set (strip_where P s)"
proof -
  obtain a b where e: "a @ strip_where P s @ b = s" and ab: "list_all P a" "list_all P b"
    using strip_where_split by blast
  from assms(1) have "c \<in> set (a @ strip_where P s @ b)" by (simp only: e)
  with ab assms(2) show ?thesis by (auto simp: list_all_iff)
qed

lemma strip_where_sublist:
  assumes "sublist xs (strip_where P s)"
  shows "sublist xs s"
proof -
  obtain a b where e: "a @ strip_where P s @ b = s"
    using strip_where_split by blast
  have "sublist (strip_where P s) (a @ strip_where P s @ b)" by (rule sublist_appendI)
  then have "sublist (strip_where P s) s" by (simp only: e)
  with assms show ?thesis by (rule sublist_order.order_trans)
qed

lemma dropWhile_no_prefix: "\<not> prefix [c] xs \<Longrightarrow> dropWhile (\<lambda>x. x = c) xs = xs"
  by (cases xs) auto

lemma suffix_single_rev: "suffix [c] s \<longleftrightarrow> prefix [c] (rev s)"
  using suffix_to_prefix [of "[c]" s] by simp

lemma strip_where_no_suffix: "\<not> suffix [c] (strip_where (\<lambda>x. x = c) s)"
proof
  assume "suffix [c] (strip_where (\<lambda>x. x = c) s)"
  then have "prefix [c] (dropWhile (\<lambda>x. x = c) (rev (dropWhile (\<lambda>x. x = c) s)))"
    by (simp add: strip_where_def suffix_single_rev)
  then show False by (simp add: not_prefix_dropWhile)
qed

lemma strip_where_no_prefix: "\<not> prefix [c] (strip_where (\<lambda>x. x = c) s)"
proof
  let ?u = "dropWhile (\<lambda>x. x = c) s"
  assume p: "prefix [c] (strip_where (\<lambda>x. x = c) s)"
  have "?u = strip_where (\<lambda>x. x = c) s @ rev (takeWhile (\<lambda>x. x = c) (rev ?u))"
    by (simp add: strip_where_def rev_dropWhile_takeWhile)
  then have "prefix (strip_where (\<lambda>x. x = c) s) ?u" by (metis prefixI)
  with p have "prefix [c] ?u" by (metis prefix_order.order_trans)
  then show False by (simp add: not_prefix_dropWhile)
qed

lemma strip_where_id:
  assumes "\<not> prefix [c] s" and "\<not> suffix [c] s"
  shows "strip_where (\<lambda>x. x = c) s = s"
proof -
  from assms(2) have "\<not> prefix [c] (rev s)" by (simp add: suffix_single_rev)
  then have "dropWhile (\<lambda>x. x = c) (rev s) = rev s" by (rule dropWhile_no_prefix)
  with dropWhile_no_prefix [OF assms(1)] show ?thesis by (simp add: strip_where_def)
qed

lemma lower_char_hyphen_sym: "CHR ''-'' = lower_char c \<longleftrightarrow> c = CHR ''-''"
  by (subst eq_commute) (rule lower_char_hyphen)

lemma lower_prefix_hyphen: "prefix ''-'' (lower s) \<longleftrightarrow> prefix ''-'' s"
  by (cases s) (auto simp: lower_def lower_char_hyphen lower_char_hyphen_sym)

lemma lower_suffix_hyphen: "suffix ''-'' (lower s) \<longleftrightarrow> suffix ''-'' s"
proof -
  have "rev (lower s) = lower (rev s)" by (simp add: lower_def rev_map)
  then show ?thesis by (simp add: suffix_single_rev lower_prefix_hyphen)
qed

lemma lower_sublist_hyphens: "sublist ''--'' (lower s) \<longleftrightarrow> sublist ''--'' s"
proof (induction s)
  case Nil
  show ?case by (simp add: lower_def)
next
  case (Cons c s)
  have "lower (c # s) = lower_char c # lower s" by (simp add: lower_def)
  with Cons show ?case
    by (simp add: sublist_hyphens_Cons lower_prefix_hyphen lower_char_hyphen)
qed

lemma lower_id: "list_all slug_char s \<Longrightarrow> lower s = s"
  by (induction s) (auto simp: lower_def lower_char_slug_char)

section \<open>Extensions and the shape of a slug\<close>

lemma rfind_ge: "- 1 \<le> rfind p c"
  by (induction p) (auto simp: Let_def)

lemma rfind_absent: "c \<notin> set p \<Longrightarrow> rfind p c = - 1"
  by (induction p) (auto simp: Let_def)

lemma rfind_last: "c \<notin> set ys \<Longrightarrow> rfind (xs @ c # ys) c = int (length xs)"
  by (induction xs) (auto simp: Let_def rfind_absent)

lemma splitext_no_dot: "CHR ''.'' \<notin> set p \<Longrightarrow> splitext p = (p, [])"
  using rfind_ge [of p "CHR ''/''"] by (simp add: splitext_def rfind_absent Let_def)

lemma splitext_pdf:
  assumes "s \<noteq> []" and "CHR ''.'' \<notin> set s" and "CHR ''/'' \<notin> set s"
  shows "splitext (s @ ''.pdf'') = (s, ''.pdf'')"
proof -
  have dot: "rfind (s @ ''.pdf'') CHR ''.'' = int (length s)"
    using rfind_last [of "CHR ''.''" "''pdf''" s] by simp
  have sep: "rfind (s @ ''.pdf'') CHR ''/'' = - 1"
    using assms(3) by (simp add: rfind_absent)
  from assms(1,2) have "(s @ ''.pdf'') ! 0 \<noteq> CHR ''.''"
    by (cases s) auto
  with assms(1) have scan: "splitext_scan (s @ ''.pdf'') 0 (length s)"
    by (subst splitext_scan.simps) simp
  show ?thesis
    by (simp add: splitext_def dot sep scan)
qed

lemma to_kebab_case_shape:
  "list_all slug_char (to_kebab_case f) \<and> \<not> prefix ''-'' (to_kebab_case f) \<and>
   \<not> suffix ''-'' (to_kebab_case f) \<and> \<not> sublist ''--'' (to_kebab_case f)"
proof -
  let ?k1 = "map (\<lambda>c. if is_ascii_alnum c then c else CHR ''-'') (fst (splitext f))"
  let ?k2 = "sub_hyphen_runs ?k1"
  let ?k3 = "strip_where (\<lambda>c. c = CHR ''-'') ?k2"
  have k: "to_kebab_case f = lower ?k3" by (simp add: to_kebab_case_def)
  have "set ?k3 \<subseteq> set ?k1"
    using set_strip_where [of "\<lambda>c. c = CHR ''-''" ?k2] set_sub_hyphen_runs [of ?k1] by blast
  then have "\<forall>c \<in> set ?k3. is_ascii_alnum c \<or> c = CHR ''-''" by auto
  then have 1: "list_all slug_char (lower ?k3)"
    by (auto simp: lower_def list_all_iff intro: slug_char_lower_char)
  have 2: "\<not> prefix ''-'' (lower ?k3)"
    by (simp only: lower_prefix_hyphen strip_where_no_prefix not_False_eq_True)
  have 3: "\<not> suffix ''-'' (lower ?k3)"
    by (simp only: lower_suffix_hyphen strip_where_no_suffix not_False_eq_True)
  have 4: "\<not> sublist ''--'' (lower ?k3)"
    using strip_where_sublist [of "''--''" "\<lambda>c. c = CHR ''-''" ?k2] sub_hyphen_runs_no_double [of ?k1]
    by (auto simp only: lower_sublist_hyphens)
  show ?thesis unfolding k using 1 2 3 4 by (intro conjI)
qed

lemma to_kebab_case_nonempty:
  assumes "c \<in> set (fst (splitext f))" and "is_ascii_alnum c"
  shows "to_kebab_case f \<noteq> []"
proof -
  let ?k1 = "map (\<lambda>c. if is_ascii_alnum c then c else CHR ''-'') (fst (splitext f))"
  let ?k2 = "sub_hyphen_runs ?k1"
  let ?k3 = "strip_where (\<lambda>c. c = CHR ''-'') ?k2"
  have k: "to_kebab_case f = lower ?k3" by (simp add: to_kebab_case_def)
  from assms(2) have nh: "c \<noteq> CHR ''-''" by (auto simp: is_ascii_alnum_def in_range_def)
  from assms have "c \<in> set ?k1" by force
  from this nh have "c \<in> set ?k2" by (rule sub_hyphen_runs_keeps)
  with nh have "c \<in> set ?k3" by (simp add: strip_where_keeps)
  then have "?k3 \<noteq> []" by auto
  then show ?thesis by (simp add: k lower_def)
qed

lemma to_kebab_case_of_slug:
  assumes "s \<noteq> []" and "list_all slug_char s" and "\<not> prefix ''-'' s" and "\<not> suffix ''-'' s"
    and "\<not> sublist ''--'' s"
  shows "to_kebab_case (s @ ''.pdf'') = s"
proof -
  from assms(2) have "CHR ''.'' \<notin> set s" and "CHR ''/'' \<notin> set s"
    by (auto simp: list_all_iff dest: slug_char_no_dot)
  with assms(1) have base: "fst (splitext (s @ ''.pdf'')) = s" by (simp add: splitext_pdf)
  from assms(2) have 1: "map (\<lambda>c. if is_ascii_alnum c then c else CHR ''-'') s = s"
    by (induction s) (auto dest: slug_char_alnum)
  from assms(5) have 2: "sub_hyphen_runs s = s" by (rule sub_hyphen_runs_id)
  from assms(3,4) have 3: "strip_where (\<lambda>c. c = CHR ''-'') s = s" by (rule strip_where_id)
  from assms(2) have 4: "lower s = s" by (rule lower_id)
  show ?thesis by (simp add: to_kebab_case_def base 1 2 3 4)
qed

section \<open>Test vectors of the format detector\<close>

text \<open>
  C2. The detector accepts \<open>250101-acme-corp-march.pdf\<close>, rejects \<open>invoice.pdf\<close> and
  \<open>25010-abc.pdf\<close> (five digits), and accepts \<open>250101-ABC.pdf\<close>: the file name is
  lower-cased before it is matched, so a slug in upper or mixed case is accepted (the
  pattern itself rejects \<open>250101-ABC.pdf\<close>).
\<close>

theorem is_already_formatted_vectors:
  "is_already_formatted ''250101-acme-corp-march.pdf'' \<and>
   \<not> is_already_formatted ''invoice.pdf'' \<and>
   \<not> is_already_formatted ''25010-abc.pdf'' \<and>
   is_already_formatted ''250101-ABC.pdf'' \<and>
   lower ''250101-ABC.pdf'' = ''250101-abc.pdf'' \<and>
   \<not> re_match_to_end pattern ''250101-ABC.pdf'' \<and>
   is_already_formatted ''250101-Acme-Corp.PDF''"
  by code_simp

section \<open>Properties of the canonicalizer\<close>

text \<open>
  C3. For every file name \<open>f\<close>, \<open>to_kebab_case f\<close> contains only characters of
  \<open>[a-z0-9-]\<close>, has no leading and no trailing hyphen, and does not contain \<open>--\<close>.
\<close>

theorem to_kebab_case_output_invariant:
  "list_all slug_char (to_kebab_case f) \<and> \<not> prefix ''-'' (to_kebab_case f) \<and>
   \<not> suffix ''-'' (to_kebab_case f) \<and> \<not> sublist ''--'' (to_kebab_case f)"
  by (rule to_kebab_case_shape)

text \<open>
  C4 as stated fails at \<open>x = "-"\<close>, a non-empty string of lower-case alphanumerics and
  hyphens: its slug is empty, and \<open>splitext(".pdf")\<close> is \<open>(".pdf", "")\<close>, a leading dot
  starting no extension, so the slug of \<open>"" + ".pdf"\<close> is \<open>pdf\<close>.
\<close>

theorem to_kebab_case_idempotent_counterexample:
  "''-'' \<noteq> [] \<and> list_all slug_char ''-'' \<and>
   to_kebab_case ''-'' = [] \<and> to_kebab_case (to_kebab_case ''-'' @ ''.pdf'') = ''pdf''"
  by code_simp

text \<open>
  C4, amended. For every string \<open>x\<close> of lower-case ASCII alphanumerics and hyphens that
  contains at least one alphanumeric character,
  \<open>to_kebab_case (to_kebab_case x + ".pdf") = to_kebab_case x\<close>.
\<close>

theorem to_kebab_case_idempotent:
  assumes "list_all slug_char x" and "list_ex is_ascii_alnum x"
  shows "to_kebab_case (to_kebab_case x @ ''.pdf'') = to_kebab_case x"
proof -
  from assms(1) have "CHR ''.'' \<notin> set x"
    by (auto simp: list_all_iff dest: slug_char_no_dot)
  then have base: "fst (splitext x) = x" by (simp add: splitext_no_dot)
  from assms(2) obtain c where "c \<in> set x" and "is_ascii_alnum c"
    by (auto simp: list_ex_iff)
  with base have "to_kebab_case x \<noteq> []"
    using to_kebab_case_nonempty [of c x] by simp
  with to_kebab_case_shape [of x] show ?thesis
    by (simp add: to_kebab_case_of_slug)
qed

text \<open>
  C4 at \<open>x = "acme--corp-"\<close>.
\<close>

theorem to_kebab_case_idempotent_witness:
  "list_all slug_char ''acme--corp-'' \<and> list_ex is_ascii_alnum ''acme--corp-'' \<and>
   to_kebab_case ''acme--corp-'' = ''acme-corp'' \<and>
   to_kebab_case (to_kebab_case ''acme--corp-'' @ ''.pdf'') = to_kebab_case ''acme--corp-''"
proof -
  have a: "list_all slug_char ''acme--corp-''" by code_simp
  have b: "list_ex is_ascii_alnum ''acme--corp-''" by code_simp
  have c: "to_kebab_case ''acme--corp-'' = ''acme-corp''" by code_simp
  from a b c to_kebab_case_idempotent [OF a b] show ?thesis by simp
qed

section \<open>A date, a hyphen, a slug and \<open>.pdf\<close> match the pattern\<close>

lemma star_chars: "list_all (in_class rs) s \<Longrightarrow> s \<in> star (lang (Chars rs))"
proof (induction s)
  case Nil
  show ?case by (rule star_empty)
next
  case (Cons c s)
  then have "[c] \<in> lang (Chars rs)" and "s \<in> star (lang (Chars rs))" by simp_all
  then have "[c] @ s \<in> star (lang (Chars rs))" by (rule star_step)
  then show ?case by simp
qed

lemma plus_chars:
  assumes "s \<noteq> []" and "list_all (in_class rs) s"
  shows "s \<in> lang (rx_plus (Chars rs))"
proof (cases s)
  case Nil
  with assms(1) show ?thesis by simp
next
  case (Cons c t)
  with assms(2) have "in_class rs c" and "list_all (in_class rs) t" by simp_all
  then have "[c] \<in> lang (Chars rs)" and "t \<in> star (lang (Chars rs))"
    by (simp_all only: star_chars) simp
  then have "[c] @ t \<in> lang (rx_plus (Chars rs))" unfolding rx_plus_def lang.simps by blast
  with Cons show ?thesis by simp
qed

lemma times_chars: "list_all (in_class rs) s \<Longrightarrow> s \<in> lang (rx_times (length s) (Chars rs))"
proof (induction s)
  case Nil
  show ?case by simp
next
  case (Cons c s)
  then have "[c] \<in> lang (Chars rs)" and "s \<in> lang (rx_times (length s) (Chars rs))"
    by simp_all
  then have "[c] @ s \<in> lang (Then (Chars rs) (rx_times (length s) (Chars rs)))"
    unfolding lang.simps by blast
  then show ?case by simp
qed

lemma lit_lang: "lang (lit c) = {[c]}"
  by (auto simp: lit_def in_class_def in_range_def)

lemma word_lang: "lang (rx_word s) = {s}"
  by (induction s) (auto simp: lit_lang)

lemma slug_char_class:
  "slug_char c \<Longrightarrow> c \<noteq> CHR ''-'' \<Longrightarrow> in_class [(CHR ''a'', CHR ''z''), (CHR ''0'', CHR ''9'')] c"
  by (auto simp: slug_char_def in_class_def)

lemma slug_segments:
  "s \<noteq> [] \<Longrightarrow> list_all slug_char s \<Longrightarrow> \<not> prefix ''-'' s \<Longrightarrow> \<not> suffix ''-'' s \<Longrightarrow>
   \<not> sublist ''--'' s \<Longrightarrow>
   \<exists>m e. s = m @ e \<and> m \<in> lang (Many (Then (rx_plus lower_alnum) (lit CHR ''-''))) \<and>
     e \<in> lang (rx_plus lower_alnum)"
proof (induction s rule: length_induct)
  case (1 s)
  let ?u = "takeWhile (\<lambda>c. c \<noteq> CHR ''-'') s"
  let ?v = "dropWhile (\<lambda>c. c \<noteq> CHR ''-'') s"
  have split: "?u @ ?v = s" by simp
  from "1.prems"(1,3) have "?u \<noteq> []" by (cases s) auto
  moreover have "list_all (in_class [(CHR ''a'', CHR ''z''), (CHR ''0'', CHR ''9'')]) ?u"
  proof -
    have "\<forall>c \<in> set ?u. slug_char c \<and> c \<noteq> CHR ''-''"
      using "1.prems"(2) by (auto simp: list_all_iff dest: set_takeWhileD)
    then show ?thesis by (auto simp: list_all_iff intro: slug_char_class)
  qed
  ultimately have u: "?u \<in> lang (rx_plus lower_alnum)"
    unfolding lower_alnum_def by (rule plus_chars)
  show ?case
  proof (cases ?v)
    case Nil
    from split have "?u @ [] = s" by (simp only: Nil)
    then have "s = [] @ ?u" by (simp only: append_Nil append_Nil2)
    moreover have "[] \<in> lang (Many (Then (rx_plus lower_alnum) (lit CHR ''-'')))"
      by (simp add: star_empty)
    ultimately show ?thesis using u by blast
  next
    case (Cons x t)
    have "\<not> x \<noteq> CHR ''-''" using hd_dropWhile [of "\<lambda>c. c \<noteq> CHR ''-''" s] Cons by simp
    then have x: "x = CHR ''-''" by simp
    from split Cons x have s: "s = ?u @ CHR ''-'' # t" by simp
    have t1: "t \<noteq> []"
    proof
      assume "t = []"
      with s have "s = ?u @ ''-''" by simp
      then have "suffix ''-'' s" by (metis suffixI)
      with "1.prems"(4) show False by simp
    qed
    have t3: "\<not> prefix ''-'' t"
    proof
      assume "prefix ''-'' t"
      then obtain r where "t = CHR ''-'' # r" by (auto simp: prefix_hyphen_iff)
      with s have "s = ?u @ ''--'' @ r" by simp
      then have "sublist ''--'' s" by (metis sublist_appendI)
      with "1.prems"(5) show False by simp
    qed
    have suf: "suffix t s" using s by (metis suffixI append.assoc append_Cons append_Nil)
    have t2: "list_all slug_char t"
      using "1.prems"(2) s by (metis list_all_append list.pred_inject(2))
    have t4: "\<not> suffix ''-'' t"
      using suf "1.prems"(4) by (metis suffix_order.order_trans)
    have t5: "\<not> sublist ''--'' t"
      using suf "1.prems"(5) by (metis suffix_imp_sublist sublist_order.order_trans)
    have "length t < length s" using s by (metis length_append length_Cons less_add_Suc2 add_Suc_right less_SucI)
    with "1.IH" t1 t2 t3 t4 t5 obtain m e where
      me: "t = m @ e" "m \<in> lang (Many (Then (rx_plus lower_alnum) (lit CHR ''-'')))"
        "e \<in> lang (rx_plus lower_alnum)"
      by blast
    have ud: "?u @ ''-'' \<in> lang (Then (rx_plus lower_alnum) (lit CHR ''-''))"
      using u unfolding lang.simps lit_lang by blast
    from ud me(2) have "(?u @ ''-'') @ m \<in> lang (Many (Then (rx_plus lower_alnum) (lit CHR ''-'')))"
      unfolding lang.simps by (rule star_step)
    moreover from s me(1) have "s = ((?u @ ''-'') @ m) @ e" by simp
    ultimately show ?thesis using me(3) by blast
  qed
qed

lemma canonical_name_in_pattern:
  assumes "six_digit_date d" and "s \<noteq> []" and "list_all slug_char s" and "\<not> prefix ''-'' s"
    and "\<not> suffix ''-'' s" and "\<not> sublist ''--'' s"
  shows "d @ ''-'' @ s @ ''.pdf'' \<in> lang pattern"
proof -
  from assms(1) have len: "length d = 6" and dig: "list_all (in_class [(CHR ''0'', CHR ''9'')]) d"
    by (simp_all add: six_digit_date_def in_class_def list_all_iff)
  from times_chars [OF dig] have d: "d \<in> lang (rx_times 6 digit)"
    by (simp only: len digit_def)
  obtain m e where me: "s = m @ e" "m \<in> lang (Many (Then (rx_plus lower_alnum) (lit CHR ''-'')))"
      "e \<in> lang (rx_plus lower_alnum)"
    using slug_segments [OF assms(2-6)] by blast
  have "e @ ''.pdf'' \<in> lang (Then (rx_plus lower_alnum) (rx_word ''.pdf''))"
    using me(3) unfolding lang.simps(4) word_lang by blast
  with me(2) have "m @ e @ ''.pdf'' \<in>
      lang (Then (Many (Then (rx_plus lower_alnum) (lit CHR ''-''))) (Then (rx_plus lower_alnum) (rx_word ''.pdf'')))"
    unfolding lang.simps(4) by blast
  then have "''-'' @ m @ e @ ''.pdf'' \<in> lang (Then (lit CHR ''-'')
      (Then (Many (Then (rx_plus lower_alnum) (lit CHR ''-''))) (Then (rx_plus lower_alnum) (rx_word ''.pdf''))))"
    unfolding lang.simps(4) lit_lang by blast
  with d have "d @ ''-'' @ m @ e @ ''.pdf'' \<in> lang pattern"
    unfolding pattern_def lang.simps(4) by blast
  with me(1) show ?thesis by simp
qed

lemma digit_slug_char: "in_range CHR ''0'' CHR ''9'' c \<Longrightarrow> slug_char c"
  by (simp add: slug_char_def)

lemma lower_canonical_name:
  assumes "six_digit_date d" and "list_all slug_char s"
  shows "lower (d @ ''-'' @ s @ ''.pdf'') = d @ ''-'' @ s @ ''.pdf''"
proof -
  from assms(1) have "list_all slug_char d"
    by (auto simp: six_digit_date_def list_all_iff intro: digit_slug_char)
  then have 1: "lower d = d" by (rule lower_id)
  from assms(2) have 2: "lower s = s" by (rule lower_id)
  have 3: "lower ''-'' = ''-''" and 4: "lower ''.pdf'' = ''.pdf''" by code_simp+
  have "lower (d @ ''-'' @ s @ ''.pdf'') = lower d @ lower ''-'' @ lower s @ lower ''.pdf''"
    by (simp add: lower_def)
  then show ?thesis by (simp only: 1 2 3 4)
qed

lemma canonical_name_formatted:
  assumes "six_digit_date d" and "to_kebab_case f \<noteq> []"
  shows "is_already_formatted (d @ ''-'' @ to_kebab_case f @ ''.pdf'')"
proof -
  note shape = to_kebab_case_shape [of f]
  from shape have "list_all slug_char (to_kebab_case f)" by simp
  with assms(1) have "lower (d @ ''-'' @ to_kebab_case f @ ''.pdf'') = d @ ''-'' @ to_kebab_case f @ ''.pdf''"
    by (rule lower_canonical_name)
  moreover have "matches pattern (d @ ''-'' @ to_kebab_case f @ ''.pdf'')"
    unfolding matches_lang using assms shape by (intro canonical_name_in_pattern) simp_all
  ultimately show ?thesis by (simp add: is_already_formatted_def re_match_to_end_def)
qed

section \<open>Paths built from one component\<close>

lemma split_sep_plain: "CHR ''/'' \<notin> set s \<Longrightarrow> split_sep s = [s]"
proof -
  assume "CHR ''/'' \<notin> set s"
  then have d: "dropWhile (\<lambda>c. c \<noteq> CHR ''/'') s = []" by auto
  show ?thesis by (subst split_sep.simps) (simp only: d list.case)
qed

lemma parse_path_plain:
  assumes "CHR ''/'' \<notin> set s" and "s \<noteq> []" and "s \<noteq> ''.''"
  shows "parse_path s = ([], [s])"
proof -
  from assms(1,2) have "hd s \<noteq> CHR ''/''" by (cases s) auto
  then have "splitroot s = ([], s)" by (simp add: splitroot_def)
  with assms show ?thesis by (simp add: parse_path_def split_sep_plain)
qed

lemma joinpath_plain:
  "CHR ''/'' \<notin> set s \<Longrightarrow> s \<noteq> [] \<Longrightarrow> s \<noteq> ''.'' \<Longrightarrow> joinpath p s = child p s"
  by (simp add: joinpath_def child_def parse_path_plain)

lemma name_child: "name (child p e) = e"
  by (simp add: name_def child_def)

lemma parent_child: "parent (child p e) = p"
  by (simp add: parent_def child_def)

lemma Path_inv: "Path ''inv'' = ([], [''inv''])"
  by code_simp

lemma new_path_plain:
  assumes "CHR ''/'' \<notin> set s"
  shows "new_path p s = child (parent p) (s @ ''-'' @ to_kebab_case (name p) @ ''.pdf'')"
proof -
  let ?f = "s @ ''-'' @ to_kebab_case (name p) @ ''.pdf''"
  have "list_all slug_char (to_kebab_case (name p))"
    using to_kebab_case_shape [of "name p"] by simp
  then have "CHR ''/'' \<notin> set (to_kebab_case (name p))"
    by (auto simp: list_all_iff dest: slug_char_no_dot)
  with assms have 1: "CHR ''/'' \<notin> set ?f" by simp
  have 2: "?f \<noteq> []" by simp
  have "length ?f \<noteq> length ''.''" by simp
  then have 3: "?f \<noteq> ''.''" by (metis (full_types))
  from 1 2 3 have "joinpath (parent p) ?f = child (parent p) ?f" by (rule joinpath_plain)
  then show ?thesis by (simp add: new_path_def)
qed

section \<open>Per-file behaviour of the batch processor\<close>

lemma files_emit: "files (emit e st) = files st"
  by (simp add: emit_def)

lemma trace_emit: "trace (emit e st) = trace st @ [e]"
  by (simp add: emit_def)

lemma extract_invoice_date_files:
  "extract_invoice_date w client avail p st = (r, st1) \<Longrightarrow> files st1 = files st"
  by (auto simp: extract_invoice_date_def ask_ollama_for_date_def
      determine_invoice_date_remote_ai_def Let_def files_emit
      split: if_splits sum.splits option.splits list.splits)

lemma rename_pdf_with_date_failed_files:
  "rename_pdf_with_date w p d st = (Inl e, st1) \<Longrightarrow> files st1 = files st"
  by (auto simp: rename_pdf_with_date_def path_rename_def Let_def files_emit
      split: sum.splits option.splits prod.splits)

text \<open>
  C9. For a file whose name the format detector accepts, the loop body only prints the
  skip message: the files are unchanged, no request is made and no rename is called, and
  the loop goes on with the next file.
\<close>

theorem skip_frame:
  assumes "is_already_formatted (name pdf_path)"
  shows "process_file w client avail pdf_path st = emit (Print (Skipping pdf_path)) st \<and>
    files (process_file w client avail pdf_path st) = files st \<and>
    trace (process_file w client avail pdf_path st) = trace st @ [Print (Skipping pdf_path)] \<and>
    process_files w client avail (pdf_path # rest) st =
      process_files w client avail rest (emit (Print (Skipping pdf_path)) st)"
  using assms by (simp add: process_file_def try_file_def files_emit trace_emit)

text \<open>
  C9 at \<open>250101-already-done.pdf\<close>.
\<close>

theorem skip_frame_witness:
  "is_already_formatted (name (child (Path ''inv'') ''250101-already-done.pdf'')) \<and>
   files (process_file cloud_world (Anthropic None) False (child (Path ''inv'') ''250101-already-done.pdf'')
     two_invoices) = files two_invoices \<and>
   trace (process_file cloud_world (Anthropic None) False (child (Path ''inv'') ''250101-already-done.pdf'')
     two_invoices) = [Print (Skipping (child (Path ''inv'') ''250101-already-done.pdf''))]"
proof -
  have h: "is_already_formatted (name (child (Path ''inv'') ''250101-already-done.pdf''))" by code_simp
  have t: "trace two_invoices = []" by (simp add: two_invoices_def)
  from skip_frame [OF h, of cloud_world "Anthropic None" False two_invoices "[]"] h t
  show ?thesis by (simp add: files_emit trace_emit)
qed

text \<open>
  C6. When the date extraction of a file raises, or its rename does, the exception is
  caught by the handler of the loop body: the error is printed with the file's path, the
  files are as they were before that file, and the loop goes on with the remaining files.
\<close>

theorem per_file_failure_isolation:
  assumes "\<not> is_already_formatted (name pdf_path)"
    and "extract_invoice_date w client avail pdf_path st = (Inl e, st1) \<or>
      (\<exists>d st0. extract_invoice_date w client avail pdf_path st = (Inr d, st0) \<and>
         rename_pdf_with_date w pdf_path d st0 = (Inl e, st1))"
  shows "process_file w client avail pdf_path st = emit (Print (ErrorProcessing pdf_path e)) st1 \<and>
    files (process_file w client avail pdf_path st) = files st \<and>
    process_files w client avail (pdf_path # rest) st =
      process_files w client avail rest (emit (Print (ErrorProcessing pdf_path e)) st1)"
proof -
  from assms have t: "try_file w client avail pdf_path st = (Inl e, st1)"
    by (auto simp: try_file_def)
  from assms(2) have f: "files st1 = files st"
  proof (elim disjE exE conjE)
    assume "extract_invoice_date w client avail pdf_path st = (Inl e, st1)"
    then show ?thesis by (rule extract_invoice_date_files)
  next
    fix d st0
    assume a: "extract_invoice_date w client avail pdf_path st = (Inr d, st0)"
      and b: "rename_pdf_with_date w pdf_path d st0 = (Inl e, st1)"
    from b have "files st1 = files st0" by (rule rename_pdf_with_date_failed_files)
    also from a have "files st0 = files st" by (rule extract_invoice_date_files)
    finally show ?thesis .
  qed
  from t f show ?thesis by (simp add: process_file_def files_emit)
qed

text \<open>
  C6 where the cloud request of the first of two files raises.
\<close>

theorem per_file_failure_isolation_witness:
  "\<not> is_already_formatted (name (child (Path ''inv'') ''Invoice March.pdf'')) \<and>
   extract_invoice_date failing_world (Anthropic None) False (child (Path ''inv'') ''Invoice March.pdf'')
     two_invoices =
     (Inl (Raised ''connection error''),
      emit (MessagesCreate (Anthropic None) None ''%PDF-1'') two_invoices) \<and>
   process_files failing_world (Anthropic None) False
     [(child (Path ''inv'') ''Invoice March.pdf''), (child (Path ''inv'') ''250101-already-done.pdf'')] two_invoices =
   process_files failing_world (Anthropic None) False [(child (Path ''inv'') ''250101-already-done.pdf'')]
     (emit (Print (ErrorProcessing (child (Path ''inv'') ''Invoice March.pdf'') (Raised ''connection error'')))
        (emit (MessagesCreate (Anthropic None) None ''%PDF-1'') two_invoices))"
proof -
  have h: "\<not> is_already_formatted (name (child (Path ''inv'') ''Invoice March.pdf''))" by code_simp
  have x: "extract_invoice_date failing_world (Anthropic None) False (child (Path ''inv'') ''Invoice March.pdf'')
     two_invoices =
     (Inl (Raised ''connection error''),
      emit (MessagesCreate (Anthropic None) None ''%PDF-1'') two_invoices)"
    by (simp add: extract_invoice_date_def load_pdf_data_for_remote_ai_def
        determine_invoice_date_remote_ai_def failing_world_def two_invoices_def
        Path_inv child_def)
  from per_file_failure_isolation [OF h disjI1 [OF x]] h x show ?thesis by simp
qed

text \<open>
  C7 as stated fails: \<open>process_pdf_directory\<close> calls \<open>get_remote_ai_client\<close> before it
  lists the directory, so the client is constructed also when no PDF is found.
\<close>

theorem empty_directory_counterexample:
  "get_pdf_files failing_world ''inv'' = [] \<and>
   trace (process_pdf_directory failing_world ''inv'' \<lparr>files = Map.empty, trace = []\<rparr>) =
     [ClientCreated (Anthropic None), Print (NoPdfFilesFound ''inv'')]"
  by (simp add: process_pdf_directory_def get_pdf_files_def get_remote_ai_client_def
      failing_world_def endswith_def emit_def Let_def)

text \<open>
  C7, amended. If no entry of the directory ends with \<open>.pdf\<close> or \<open>.PDF\<close>, the run
  constructs the cloud client, prints one message and returns: no probe, no extraction
  request and no rename happen, and the files are unchanged.
\<close>

theorem empty_directory:
  assumes "list_all (\<lambda>n. \<not> endswith n ''.pdf'' \<and> \<not> endswith n ''.PDF'') (listdir w directory)"
  shows "process_pdf_directory w directory st =
    st\<lparr>trace := trace st @
      [ClientCreated (Anthropic (environ w ''ANTHROPIC_API_KEY'')),
       Print (NoPdfFilesFound directory)]\<rparr>"
proof -
  from assms have "get_pdf_files w directory = []"
    by (auto simp: get_pdf_files_def list_all_iff filter_empty_conv)
  then show ?thesis
    by (simp add: process_pdf_directory_def get_remote_ai_client_def emit_def Let_def)
qed

text \<open>
  C7 at a directory that holds \<open>notes.txt\<close> only.
\<close>

theorem empty_directory_witness:
  "list_all (\<lambda>n. \<not> endswith n ''.pdf'' \<and> \<not> endswith n ''.PDF'') (listdir failing_world ''inv'') \<and>
   process_pdf_directory failing_world ''inv'' two_invoices =
     two_invoices\<lparr>trace := trace two_invoices @
       [ClientCreated (Anthropic (environ failing_world ''ANTHROPIC_API_KEY'')),
        Print (NoPdfFilesFound ''inv'')]\<rparr>"
proof -
  have h: "list_all (\<lambda>n. \<not> endswith n ''.pdf'' \<and> \<not> endswith n ''.PDF'')
      (listdir failing_world ''inv'')"
    by (simp add: failing_world_def endswith_def)
  from empty_directory [OF h] h show ?thesis by simp
qed

section \<open>Renamed files on a second run, and colliding targets\<close>

lemma process_file_formatted:
  "is_already_formatted (name pdf_path) \<Longrightarrow>
   process_file w client avail pdf_path st = emit (Print (Skipping pdf_path)) st"
  by (simp add: process_file_def try_file_def)

lemma child_inv: "child (Path ''inv'') entry = ([], [''inv'', entry])"
  by (simp add: child_def Path_inv)

lemma six_digit_date_plain: "six_digit_date d \<Longrightarrow> CHR ''/'' \<notin> set d"
  by (auto simp: six_digit_date_def list_all_iff in_range_def)

text \<open>
  Where the slug of the old name is not empty and the date is six digits, the new name
  is accepted by the format detector and the loop body skips the renamed file.
\<close>

lemma nonempty_slug_is_skipped:
  assumes "six_digit_date d" and "to_kebab_case f \<noteq> []"
  shows "new_path (child dir f) d = child dir (d @ ''-'' @ to_kebab_case f @ ''.pdf'') \<and>
    is_already_formatted (name (new_path (child dir f) d)) \<and>
    process_file w client avail (new_path (child dir f) d) st =
      emit (Print (Skipping (new_path (child dir f) d))) st"
proof -
  from assms(1) have n: "new_path (child dir f) d = child dir (d @ ''-'' @ to_kebab_case f @ ''.pdf'')"
    by (simp add: new_path_plain six_digit_date_plain name_child parent_child)
  from assms have "is_already_formatted (d @ ''-'' @ to_kebab_case f @ ''.pdf'')"
    by (rule canonical_name_formatted)
  then have b: "is_already_formatted (name (new_path (child dir f) d))"
    by (simp add: n name_child)
  from n b process_file_formatted [OF b] show ?thesis by simp
qed

text \<open>
  C1. The round trip fails for the file name \<open>_.pdf\<close> with the date \<open>250315\<close>: the slug
  is empty, the rename step produces \<open>250315-.pdf\<close>, the format detector rejects that
  name, and the loop body of a second run does not skip the file: it sends it to the
  backend again and renames it to \<open>250315-250315.pdf\<close>.
\<close>

theorem renamed_file_not_skipped:
  "six_digit_date ''250315'' \<and> to_kebab_case ''_.pdf'' = [] \<and>
   \<not> is_already_formatted ''_.pdf'' \<and>
   new_path (child (Path ''inv'') ''_.pdf'') ''250315'' = child (Path ''inv'') ''250315-.pdf'' \<and>
   \<not> is_already_formatted ''250315-.pdf'' \<and>
   trace (process_file cloud_world (Anthropic None) False (child (Path ''inv'') ''_.pdf'')
            one_unnamed) =
     [MessagesCreate (Anthropic None) (Some ''model'') ''%PDF-1'',
      PathRename (child (Path ''inv'') ''_.pdf'') (child (Path ''inv'') ''250315-.pdf''),
      Print (Renamed (child (Path ''inv'') ''_.pdf'') (child (Path ''inv'') ''250315-.pdf''))] \<and>
   trace (process_file cloud_world (Anthropic None) False (child (Path ''inv'') ''250315-.pdf'')
            (process_file cloud_world (Anthropic None) False (child (Path ''inv'') ''_.pdf'')
               one_unnamed)) =
     [MessagesCreate (Anthropic None) (Some ''model'') ''%PDF-1'',
      PathRename (child (Path ''inv'') ''_.pdf'') (child (Path ''inv'') ''250315-.pdf''),
      Print (Renamed (child (Path ''inv'') ''_.pdf'') (child (Path ''inv'') ''250315-.pdf'')),
      MessagesCreate (Anthropic None) (Some ''model'') ''%PDF-1'',
      PathRename (child (Path ''inv'') ''250315-.pdf'') (child (Path ''inv'') ''250315-250315.pdf''),
      Print (Renamed (child (Path ''inv'') ''250315-.pdf'')
        (child (Path ''inv'') ''250315-250315.pdf''))]"
proof -
  have d: "six_digit_date ''250315''" by code_simp
  have k: "to_kebab_case ''_.pdf'' = []" by code_simp
  have f0: "\<not> is_already_formatted ''_.pdf''" by code_simp
  have f1: "\<not> is_already_formatted ''250315-.pdf''" by code_simp
  have n1: "new_path (child (Path ''inv'') ''_.pdf'') ''250315'' = child (Path ''inv'') ''250315-.pdf''"
    by code_simp
  have m1: "new_path ([], [''inv'', ''_.pdf'']) ''250315'' = ([], [''inv'', ''250315-.pdf''])"
    by code_simp
  have m2: "new_path ([], [''inv'', ''250315-.pdf'']) ''250315'' =
      ([], [''inv'', ''250315-250315.pdf''])"
    by code_simp
  have s1: "process_file cloud_world (Anthropic None) False (child (Path ''inv'') ''_.pdf'')
      one_unnamed =
    \<lparr>files = [child (Path ''inv'') ''250315-.pdf'' \<mapsto> ''%PDF-1''],
     trace = [MessagesCreate (Anthropic None) (Some ''model'') ''%PDF-1'',
      PathRename (child (Path ''inv'') ''_.pdf'') (child (Path ''inv'') ''250315-.pdf''),
      Print (Renamed (child (Path ''inv'') ''_.pdf'') (child (Path ''inv'') ''250315-.pdf''))]\<rparr>"
    by (simp add: process_file_def try_file_def name_def f0 extract_invoice_date_def
        load_pdf_data_for_remote_ai_def determine_invoice_date_remote_ai_def
        rename_pdf_with_date_def path_rename_def m1 emit_def child_inv
        cloud_world_def one_unnamed_def)
  have t1: "trace (process_file cloud_world (Anthropic None) False (child (Path ''inv'') ''_.pdf'')
            one_unnamed) =
     [MessagesCreate (Anthropic None) (Some ''model'') ''%PDF-1'',
      PathRename (child (Path ''inv'') ''_.pdf'') (child (Path ''inv'') ''250315-.pdf''),
      Print (Renamed (child (Path ''inv'') ''_.pdf'') (child (Path ''inv'') ''250315-.pdf''))]"
    by (simp add: s1)
  have t2: "trace (process_file cloud_world (Anthropic None) False (child (Path ''inv'') ''250315-.pdf'')
            (process_file cloud_world (Anthropic None) False (child (Path ''inv'') ''_.pdf'')
               one_unnamed)) =
     [MessagesCreate (Anthropic None) (Some ''model'') ''%PDF-1'',
      PathRename (child (Path ''inv'') ''_.pdf'') (child (Path ''inv'') ''250315-.pdf''),
      Print (Renamed (child (Path ''inv'') ''_.pdf'') (child (Path ''inv'') ''250315-.pdf'')),
      MessagesCreate (Anthropic None) (Some ''model'') ''%PDF-1'',
      PathRename (child (Path ''inv'') ''250315-.pdf'') (child (Path ''inv'') ''250315-250315.pdf''),
      Print (Renamed (child (Path ''inv'') ''250315-.pdf'')
        (child (Path ''inv'') ''250315-250315.pdf''))]"
    unfolding s1
    by (simp add: process_file_def try_file_def name_def f1 extract_invoice_date_def
        load_pdf_data_for_remote_ai_def determine_invoice_date_remote_ai_def
        rename_pdf_with_date_def path_rename_def m2 emit_def child_inv cloud_world_def)
  from d k f0 n1 f1 t1 t2 show ?thesis by (intro conjI)
qed

text \<open>
  C10. The file names \<open>a b.pdf\<close> and \<open>a_b.pdf\<close> differ and have the same slug, so for
  every directory and date their new paths are equal; in a batch where both get the date
  \<open>250315\<close>, the first rename puts its file at \<open>250315-a-b.pdf\<close> and the second rename is
  called with that same target.
\<close>

theorem rename_target_not_injective:
  "''a b.pdf'' \<noteq> ''a_b.pdf'' \<and>
   (\<forall>dir d. new_path (child dir ''a b.pdf'') d = new_path (child dir ''a_b.pdf'') d) \<and>
   new_path (child (Path ''inv'') ''a b.pdf'') ''250315'' = child (Path ''inv'') ''250315-a-b.pdf'' \<and>
   files (process_file collision_world (Anthropic None) False (child (Path ''inv'') ''a b.pdf'')
     two_similar) (child (Path ''inv'') ''250315-a-b.pdf'') = Some ''%PDF-1'' \<and>
   trace (process_pdf_directory collision_world ''inv'' two_similar) =
     [ClientCreated (Anthropic (Some ''key'')), Print (FoundPdfFiles 2),
      MessagesCreate (Anthropic (Some ''key'')) (Some ''model'') ''%PDF-1'',
      PathRename (child (Path ''inv'') ''a b.pdf'') (child (Path ''inv'') ''250315-a-b.pdf''),
      Print (Renamed (child (Path ''inv'') ''a b.pdf'') (child (Path ''inv'') ''250315-a-b.pdf'')),
      MessagesCreate (Anthropic (Some ''key'')) (Some ''model'') ''%PDF-2'',
      PathRename (child (Path ''inv'') ''a_b.pdf'') (child (Path ''inv'') ''250315-a-b.pdf''),
      Print (Renamed (child (Path ''inv'') ''a_b.pdf'') (child (Path ''inv'') ''250315-a-b.pdf''))]"
proof -
  have k1: "to_kebab_case ''a b.pdf'' = ''a-b''" and k2: "to_kebab_case ''a_b.pdf'' = ''a-b''"
    by code_simp+
  have f1: "\<not> is_already_formatted ''a b.pdf''" and f2: "\<not> is_already_formatted ''a_b.pdf''"
    by code_simp+
  have n1: "new_path (child (Path ''inv'') ''a b.pdf'') ''250315'' =
      child (Path ''inv'') ''250315-a-b.pdf''"
    and n2: "new_path (child (Path ''inv'') ''a_b.pdf'') ''250315'' =
      child (Path ''inv'') ''250315-a-b.pdf''"
    by code_simp+
  have m1: "new_path ([], [''inv'', ''a b.pdf'']) ''250315'' = ([], [''inv'', ''250315-a-b.pdf''])"
    and m2: "new_path ([], [''inv'', ''a_b.pdf'']) ''250315'' = ([], [''inv'', ''250315-a-b.pdf''])"
    by code_simp+
  have 1: "''a b.pdf'' \<noteq> ''a_b.pdf''" by simp
  have 2: "\<forall>dir d. new_path (child dir ''a b.pdf'') d = new_path (child dir ''a_b.pdf'') d"
    by (simp add: new_path_def name_child parent_child k1 k2)
  have 4: "files (process_file collision_world (Anthropic None) False (child (Path ''inv'') ''a b.pdf'')
     two_similar) (child (Path ''inv'') ''250315-a-b.pdf'') = Some ''%PDF-1''"
    by (simp add: process_file_def try_file_def name_def f1 extract_invoice_date_def
        load_pdf_data_for_remote_ai_def determine_invoice_date_remote_ai_def
        rename_pdf_with_date_def path_rename_def m1 emit_def child_inv
        collision_world_def cloud_world_def two_similar_def)
  have 5: "trace (process_pdf_directory collision_world ''inv'' two_similar) =
     [ClientCreated (Anthropic (Some ''key'')), Print (FoundPdfFiles 2),
      MessagesCreate (Anthropic (Some ''key'')) (Some ''model'') ''%PDF-1'',
      PathRename (child (Path ''inv'') ''a b.pdf'') (child (Path ''inv'') ''250315-a-b.pdf''),
      Print (Renamed (child (Path ''inv'') ''a b.pdf'') (child (Path ''inv'') ''250315-a-b.pdf'')),
      MessagesCreate (Anthropic (Some ''key'')) (Some ''model'') ''%PDF-2'',
      PathRename (child (Path ''inv'') ''a_b.pdf'') (child (Path ''inv'') ''250315-a-b.pdf''),
      Print (Renamed (child (Path ''inv'') ''a_b.pdf'') (child (Path ''inv'') ''250315-a-b.pdf''))]"
    by (simp add: process_pdf_directory_def get_remote_ai_client_def get_pdf_files_def
        endswith_def ollama_is_available_def truthy_def
        process_file_def try_file_def name_def f1 f2 extract_invoice_date_def
        load_pdf_data_for_remote_ai_def determine_invoice_date_remote_ai_def
        rename_pdf_with_date_def path_rename_def m1 m2 emit_def Let_def
        collision_world_def cloud_world_def two_similar_def child_inv)
  from 1 2 n1 4 5 show ?thesis by (intro conjI)
qed

section \<open>Backend selection and the date in the new name\<close>

lemma uses_only_print: "uses_only a (Print m)" and uses_only_rename: "uses_only a (PathRename p q)"
  by (simp_all add: uses_only_def)

lemma extract_invoice_date_trace:
  "extract_invoice_date w client a p st = (r, st1) \<Longrightarrow>
   \<exists>evs. trace st1 = trace st @ evs \<and> list_all (uses_only a) evs"
  by (auto simp: extract_invoice_date_def ask_ollama_for_date_def
      determine_invoice_date_remote_ai_def Let_def trace_emit uses_only_def
      split: if_splits sum.splits option.splits list.splits)

lemma rename_pdf_with_date_trace:
  "rename_pdf_with_date w p d st = (r, st1) \<Longrightarrow>
   \<exists>evs. trace st1 = trace st @ evs \<and> list_all (uses_only a) evs"
  by (auto simp: rename_pdf_with_date_def path_rename_def Let_def emit_def uses_only_def
      split: sum.splits option.splits prod.splits)

lemma try_file_trace:
  assumes "try_file w client a p st = (r, st1)"
  shows "\<exists>evs. trace st1 = trace st @ evs \<and> list_all (uses_only a) evs"
proof (cases "is_already_formatted (name p)")
  case True
  with assms have "trace st1 = trace st @ [Print (Skipping p)]"
    by (auto simp: try_file_def trace_emit)
  then show ?thesis by (simp add: uses_only_print)
next
  case False
  obtain x st0 where x: "extract_invoice_date w client a p st = (x, st0)" by (cases "extract_invoice_date w client a p st")
  then obtain e0 where e0: "trace st0 = trace st @ e0" "list_all (uses_only a) e0"
    using extract_invoice_date_trace by blast
  show ?thesis
  proof (cases x)
    case (Inl e)
    with assms False x have "st1 = st0" by (simp add: try_file_def)
    with e0 show ?thesis by blast
  next
    case (Inr d)
    with assms False x have "rename_pdf_with_date w p d st0 = (r, st1)" by (simp add: try_file_def)
    then obtain e1 where "trace st1 = trace st0 @ e1" "list_all (uses_only a) e1"
      using rename_pdf_with_date_trace by blast
    with e0 have "trace st1 = trace st @ (e0 @ e1)" "list_all (uses_only a) (e0 @ e1)" by simp_all
    then show ?thesis by blast
  qed
qed

lemma process_file_trace:
  "\<exists>evs. trace (process_file w client a p st) = trace st @ evs \<and> list_all (uses_only a) evs"
proof -
  obtain r st1 where t: "try_file w client a p st = (r, st1)" by (cases "try_file w client a p st")
  then obtain e0 where e0: "trace st1 = trace st @ e0" "list_all (uses_only a) e0"
    using try_file_trace by blast
  show ?thesis
  proof (cases r)
    case (Inl e)
    with t e0 have "trace (process_file w client a p st) = trace st @ (e0 @ [Print (ErrorProcessing p e)])"
      and "list_all (uses_only a) (e0 @ [Print (ErrorProcessing p e)])"
      by (simp_all add: process_file_def trace_emit uses_only_print)
    then show ?thesis by blast
  next
    case (Inr u)
    with t e0 show ?thesis by (simp add: process_file_def)
  qed
qed

lemma process_files_trace:
  "\<exists>evs. trace (process_files w client a ps st) = trace st @ evs \<and> list_all (uses_only a) evs"
proof (induction ps arbitrary: st)
  case Nil
  show ?case by simp
next
  case (Cons p ps)
  obtain e0 where e0: "trace (process_file w client a p st) = trace st @ e0" "list_all (uses_only a) e0"
    using process_file_trace by blast
  obtain e1 where e1: "trace (process_files w client a ps (process_file w client a p st)) =
      trace (process_file w client a p st) @ e1" "list_all (uses_only a) e1"
    using Cons by blast
  from e0 e1 have "trace (process_files w client a (p # ps) st) = trace st @ (e0 @ e1)"
    and "list_all (uses_only a) (e0 @ e1)" by simp_all
  then show ?case by blast
qed

lemma ollama_is_available_iff:
  "fst (ollama_is_available w st) \<longleftrightarrow>
     (\<exists>u m. environ w ''OLLAMA_API_URL'' = Some u \<and> u \<noteq> [] \<and>
        environ w ''OLLAMA_MODEL'' = Some m \<and> m \<noteq> [] \<and>
        requests_get w (u @ ''/version'') = Inr 200)"
  by (auto simp: ollama_is_available_def is_ollama_running_def truthy_def Let_def
      split: option.splits sum.splits)

lemma ollama_is_available_state:
  "snd (ollama_is_available w st) =
     st\<lparr>trace := trace st @
       (if \<exists>u m. environ w ''OLLAMA_API_URL'' = Some u \<and> u \<noteq> [] \<and>
             environ w ''OLLAMA_MODEL'' = Some m \<and> m \<noteq> []
        then [HttpGet (the (environ w ''OLLAMA_API_URL'') @ ''/version'')] else [])\<rparr>"
  by (auto simp: ollama_is_available_def is_ollama_running_def truthy_def Let_def emit_def
      split: option.splits sum.splits)

lemma process_files_foldl:
  "process_files w client a ps st = foldl (\<lambda>s p. process_file w client a p s) st ps"
  by (induction ps arbitrary: st) simp_all

lemma process_file_after_extract:
  assumes "\<not> is_already_formatted (name p)"
    and "extract_invoice_date w client a p s = (r, s1)"
  shows "\<exists>rest. trace (process_file w client a p s) = trace s1 @ rest"
proof (cases r)
  case (Inl e)
  with assms show ?thesis by (simp add: process_file_def try_file_def trace_emit)
next
  case (Inr d)
  obtain r2 s2 where x: "rename_pdf_with_date w p d s1 = (r2, s2)"
    by (cases "rename_pdf_with_date w p d s1")
  then obtain evs where evs: "trace s2 = trace s1 @ evs"
    using rename_pdf_with_date_trace by blast
  from assms Inr x have "try_file w client a p s = (r2, s2)" by (simp add: try_file_def)
  then show ?thesis using evs
    by (cases r2) (simp_all add: process_file_def trace_emit)
qed

lemma local_request_sent:
  assumes "\<not> is_already_formatted (name p)" and "files s p = Some bytes"
    and "fitz_open w bytes = Inr pages" and "environ w ''OLLAMA_API_URL'' = Some u"
  shows "\<exists>rest. trace (process_file w client True p s) =
    trace s @ HttpPost (u @ ''/generate'') (environ w ''OLLAMA_MODEL'') (prompt (concat pages)) # rest"
proof -
  obtain r s1 where x: "extract_invoice_date w client True p s = (r, s1)"
    by (cases "extract_invoice_date w client True p s")
  with assms(2-4) have "trace s1 =
      trace s @ [HttpPost (u @ ''/generate'') (environ w ''OLLAMA_MODEL'') (prompt (concat pages))]"
    by (auto simp: extract_invoice_date_def extract_pdf_text_for_ollama_ai_def
        ask_ollama_for_date_def Let_def trace_emit split: sum.splits)
  with process_file_after_extract [OF assms(1) x] show ?thesis by auto
qed

lemma cloud_request_sent:
  assumes "\<not> is_already_formatted (name p)" and "files s p = Some bytes"
  shows "\<exists>rest. trace (process_file w client False p s) =
    trace s @ MessagesCreate client (environ w ''ANTHROPIC_MODEL'') (b64encode w bytes) # rest"
proof -
  obtain r s1 where x: "extract_invoice_date w client False p s = (r, s1)"
    by (cases "extract_invoice_date w client False p s")
  with assms(2) have "trace s1 =
      trace s @ [MessagesCreate client (environ w ''ANTHROPIC_MODEL'') (b64encode w bytes)]"
    by (auto simp: extract_invoice_date_def load_pdf_data_for_remote_ai_def
        determine_invoice_date_remote_ai_def Let_def trace_emit split: sum.splits list.splits)
  with process_file_after_extract [OF assms(1) x] show ?thesis by auto
qed

theorem selection_once_per_run_counterexample:
  "environ idle_world ''OLLAMA_API_URL'' = Some ''http://localhost:11434/api'' \<and>
   environ idle_world ''OLLAMA_MODEL'' = Some ''llama3'' \<and>
   requests_get idle_world ''http://localhost:11434/api/version'' = Inr 200 \<and>
   get_pdf_files idle_world ''inv'' = [] \<and>
   trace (snd (ollama_is_available idle_world \<lparr>files = Map.empty, trace = []\<rparr>)) =
     [HttpGet ''http://localhost:11434/api/version''] \<and>
   trace (process_pdf_directory idle_world ''inv'' \<lparr>files = Map.empty, trace = []\<rparr>) =
     [ClientCreated (Anthropic None), Print (NoPdfFilesFound ''inv'')]"
  by (simp add: process_pdf_directory_def get_pdf_files_def get_remote_ai_client_def
      ollama_is_available_def is_ollama_running_def truthy_def
      idle_world_def local_world_def endswith_def emit_def Let_def)

text \<open>
  C5. In a run over a directory with PDF files, the variant is chosen once, before the
  loop: up to the loop the run constructs the client, prints the count and sends the
  probe, once when \<open>OLLAMA_API_URL\<close> and \<open>OLLAMA_MODEL\<close> are both set to a non-empty
  string and not at all otherwise; then the whole loop runs with the one value
  \<open>available\<close>. That value is true exactly when both variables are set to a non-empty
  string and the GET of the version endpoint answers 200; a probe that raises or answers
  another status gives false and raises nothing. With \<open>available\<close> the loop sends no
  cloud request, without it no local request, and it sends no further probe.
\<close>

theorem backend_selection_policy:
  assumes "get_pdf_files w directory \<noteq> []"
  shows "\<exists>available st2 loop.
    (available \<longleftrightarrow>
       (\<exists>u m. environ w ''OLLAMA_API_URL'' = Some u \<and> u \<noteq> [] \<and>
          environ w ''OLLAMA_MODEL'' = Some m \<and> m \<noteq> [] \<and>
          requests_get w (u @ ''/version'') = Inr 200)) \<and>
    st2 = st\<lparr>trace := trace st @
      [ClientCreated (Anthropic (environ w ''ANTHROPIC_API_KEY'')),
       Print (FoundPdfFiles (length (get_pdf_files w directory)))] @
      (if \<exists>u m. environ w ''OLLAMA_API_URL'' = Some u \<and> u \<noteq> [] \<and>
            environ w ''OLLAMA_MODEL'' = Some m \<and> m \<noteq> []
       then [HttpGet (the (environ w ''OLLAMA_API_URL'') @ ''/version'')] else [])\<rparr> \<and>
    process_pdf_directory w directory st =
      foldl (\<lambda>s p. process_file w (Anthropic (environ w ''ANTHROPIC_API_KEY'')) available p s)
        st2 (get_pdf_files w directory) \<and>
    trace (process_pdf_directory w directory st) = trace st2 @ loop \<and>
    list_all (uses_only available) loop \<and>
    (\<forall>p s bytes pages.
       available \<longrightarrow> \<not> is_already_formatted (name p) \<longrightarrow> files s p = Some bytes \<longrightarrow>
       fitz_open w bytes = Inr pages \<longrightarrow>
       (\<exists>rest. trace (process_file w (Anthropic (environ w ''ANTHROPIC_API_KEY'')) available p s) =
          trace s @
          HttpPost (the (environ w ''OLLAMA_API_URL'') @ ''/generate'') (environ w ''OLLAMA_MODEL'')
            (prompt (concat pages)) # rest)) \<and>
    (\<forall>p s bytes.
       \<not> available \<longrightarrow> \<not> is_already_formatted (name p) \<longrightarrow> files s p = Some bytes \<longrightarrow>
       (\<exists>rest. trace (process_file w (Anthropic (environ w ''ANTHROPIC_API_KEY'')) available p s) =
          trace s @
          MessagesCreate (Anthropic (environ w ''ANTHROPIC_API_KEY'')) (environ w ''ANTHROPIC_MODEL'')
            (b64encode w bytes) # rest))"
proof -
  let ?c = "Anthropic (environ w ''ANTHROPIC_API_KEY'')"
  let ?s1 = "emit (Print (FoundPdfFiles (length (get_pdf_files w directory))))
    (emit (ClientCreated ?c) st)"
  let ?a = "fst (ollama_is_available w ?s1)"
  let ?s2 = "snd (ollama_is_available w ?s1)"
  let ?pre = "if \<exists>u m. environ w ''OLLAMA_API_URL'' = Some u \<and> u \<noteq> [] \<and>
            environ w ''OLLAMA_MODEL'' = Some m \<and> m \<noteq> []
       then [HttpGet (the (environ w ''OLLAMA_API_URL'') @ ''/version'')] else []"
  have a: "?a \<longleftrightarrow>
       (\<exists>u m. environ w ''OLLAMA_API_URL'' = Some u \<and> u \<noteq> [] \<and>
          environ w ''OLLAMA_MODEL'' = Some m \<and> m \<noteq> [] \<and>
          requests_get w (u @ ''/version'') = Inr 200)"
    by (rule ollama_is_available_iff)
  have s2: "?s2 = st\<lparr>trace := trace st @
      [ClientCreated ?c, Print (FoundPdfFiles (length (get_pdf_files w directory)))] @ ?pre\<rparr>"
    by (simp only: ollama_is_available_state) (simp add: emit_def)
  have run: "process_pdf_directory w directory st =
      foldl (\<lambda>s p. process_file w ?c ?a p s) ?s2 (get_pdf_files w directory)"
    using assms
    by (simp add: process_pdf_directory_def get_remote_ai_client_def Let_def
        process_files_foldl split: prod.splits)
  obtain loop where loop: "trace (process_files w ?c ?a (get_pdf_files w directory) ?s2) =
      trace ?s2 @ loop" "list_all (uses_only ?a) loop"
    using process_files_trace by blast
  from run loop(1) have l: "trace (process_pdf_directory w directory st) = trace ?s2 @ loop"
    by (simp add: process_files_foldl)
  have loc: "\<forall>p s bytes pages.
       ?a \<longrightarrow> \<not> is_already_formatted (name p) \<longrightarrow> files s p = Some bytes \<longrightarrow>
       fitz_open w bytes = Inr pages \<longrightarrow>
       (\<exists>rest. trace (process_file w ?c ?a p s) =
          trace s @
          HttpPost (the (environ w ''OLLAMA_API_URL'') @ ''/generate'') (environ w ''OLLAMA_MODEL'')
            (prompt (concat pages)) # rest)"
  proof (intro allI impI)
    fix p :: path and s :: state and bytes pages
    assume av: "?a" and nf: "\<not> is_already_formatted (name p)" and f: "files s p = Some bytes"
      and pg: "fitz_open w bytes = Inr pages"
    from av a obtain u where u: "environ w ''OLLAMA_API_URL'' = Some u" by blast
    from local_request_sent [OF nf f pg u, of ?c] av u
    show "\<exists>rest. trace (process_file w ?c ?a p s) =
          trace s @
          HttpPost (the (environ w ''OLLAMA_API_URL'') @ ''/generate'') (environ w ''OLLAMA_MODEL'')
            (prompt (concat pages)) # rest"
      by simp
  qed
  have cld: "\<forall>p s bytes.
       \<not> ?a \<longrightarrow> \<not> is_already_formatted (name p) \<longrightarrow> files s p = Some bytes \<longrightarrow>
       (\<exists>rest. trace (process_file w ?c ?a p s) =
          trace s @ MessagesCreate ?c (environ w ''ANTHROPIC_MODEL'') (b64encode w bytes) # rest)"
  proof (intro allI impI)
    fix p :: path and s :: state and bytes
    assume av: "\<not> ?a" and nf: "\<not> is_already_formatted (name p)" and f: "files s p = Some bytes"
    from cloud_request_sent [OF nf f, of w ?c] av
    show "\<exists>rest. trace (process_file w ?c ?a p s) =
          trace s @ MessagesCreate ?c (environ w ''ANTHROPIC_MODEL'') (b64encode w bytes) # rest"
      by simp
  qed
  from a s2 run l loop(2) loc cld show ?thesis by blast
qed

text \<open>
  C5 where the local server is configured and alive.
\<close>

theorem backend_selection_policy_witness:
  "get_pdf_files local_world ''inv'' \<noteq> [] \<and>
   (\<exists>st2.
      st2 = two_invoices\<lparr>trace :=
        [ClientCreated (Anthropic None), Print (FoundPdfFiles 2),
         HttpGet ''http://localhost:11434/api/version'']\<rparr> \<and>
      process_pdf_directory local_world ''inv'' two_invoices =
        foldl (\<lambda>s p. process_file local_world (Anthropic None) True p s) st2
          (get_pdf_files local_world ''inv'')) \<and>
   (\<exists>rest. trace (process_file local_world (Anthropic None) True
        (child (Path ''inv'') ''Invoice March.pdf'') two_invoices) =
      HttpPost ''http://localhost:11434/api/generate'' (Some ''llama3'') (prompt ''%PDF-1'') # rest)"
proof -
  have h: "get_pdf_files local_world ''inv'' \<noteq> []"
    by (simp add: get_pdf_files_def local_world_def endswith_def)
  have n: "length (get_pdf_files local_world ''inv'') = 2"
    by (simp add: get_pdf_files_def local_world_def endswith_def)
  have e: "environ local_world ''ANTHROPIC_API_KEY'' = None"
    and u: "environ local_world ''OLLAMA_API_URL'' = Some ''http://localhost:11434/api''"
    and m: "environ local_world ''OLLAMA_MODEL'' = Some ''llama3''"
    and g: "requests_get local_world (''http://localhost:11434/api'' @ ''/version'') = Inr 200"
    by (simp_all add: local_world_def)
  have t: "trace two_invoices = []" by (simp add: two_invoices_def)
  have nf: "\<not> is_already_formatted (name (child (Path ''inv'') ''Invoice March.pdf''))"
    by code_simp
  have fl: "files two_invoices (child (Path ''inv'') ''Invoice March.pdf'') = Some ''%PDF-1''"
    by (simp add: two_invoices_def child_inv)
  have fz: "fitz_open local_world ''%PDF-1'' = Inr [''%PDF-1'']" by (simp add: local_world_def)
  have cfg: "\<exists>u m. environ local_world ''OLLAMA_API_URL'' = Some u \<and> u \<noteq> [] \<and>
          environ local_world ''OLLAMA_MODEL'' = Some m \<and> m \<noteq> [] \<and>
          requests_get local_world (u @ ''/version'') = Inr 200"
    using u m g by (intro exI [of _ "''http://localhost:11434/api''"] exI [of _ "''llama3''"]) simp
  then have cfg2: "\<exists>u m. environ local_world ''OLLAMA_API_URL'' = Some u \<and> u \<noteq> [] \<and>
          environ local_world ''OLLAMA_MODEL'' = Some m \<and> m \<noteq> []"
    by blast
  from backend_selection_policy [OF h, of two_invoices]
  obtain available st2 where
    a: "available \<longleftrightarrow>
       (\<exists>u m. environ local_world ''OLLAMA_API_URL'' = Some u \<and> u \<noteq> [] \<and>
          environ local_world ''OLLAMA_MODEL'' = Some m \<and> m \<noteq> [] \<and>
          requests_get local_world (u @ ''/version'') = Inr 200)"
    and s: "st2 = two_invoices\<lparr>trace := trace two_invoices @
      [ClientCreated (Anthropic (environ local_world ''ANTHROPIC_API_KEY'')),
       Print (FoundPdfFiles (length (get_pdf_files local_world ''inv'')))] @
      (if \<exists>u m. environ local_world ''OLLAMA_API_URL'' = Some u \<and> u \<noteq> [] \<and>
            environ local_world ''OLLAMA_MODEL'' = Some m \<and> m \<noteq> []
       then [HttpGet (the (environ local_world ''OLLAMA_API_URL'') @ ''/version'')] else [])\<rparr>"
    and r: "process_pdf_directory local_world ''inv'' two_invoices =
      foldl (\<lambda>s p. process_file local_world (Anthropic (environ local_world ''ANTHROPIC_API_KEY''))
        available p s) st2 (get_pdf_files local_world ''inv'')"
    and l: "\<forall>p s bytes pages.
       available \<longrightarrow> \<not> is_already_formatted (name p) \<longrightarrow> files s p = Some bytes \<longrightarrow>
       fitz_open local_world bytes = Inr pages \<longrightarrow>
       (\<exists>rest. trace (process_file local_world (Anthropic (environ local_world ''ANTHROPIC_API_KEY''))
            available p s) =
          trace s @
          HttpPost (the (environ local_world ''OLLAMA_API_URL'') @ ''/generate'')
            (environ local_world ''OLLAMA_MODEL'') (prompt (concat pages)) # rest)"
    by blast
  from a cfg have av: "available = True" by simp
  have s': "st2 = two_invoices\<lparr>trace :=
        [ClientCreated (Anthropic None), Print (FoundPdfFiles 2),
         HttpGet ''http://localhost:11434/api/version'']\<rparr>"
    unfolding s using cfg2 by (simp add: e n t u)
  from r have r': "process_pdf_directory local_world ''inv'' two_invoices =
        foldl (\<lambda>s p. process_file local_world (Anthropic None) True p s) st2
          (get_pdf_files local_world ''inv'')"
    by (simp add: av e)
  from l av nf fl fz have "\<exists>rest. trace (process_file local_world
        (Anthropic (environ local_world ''ANTHROPIC_API_KEY'')) True
        (child (Path ''inv'') ''Invoice March.pdf'') two_invoices) =
      trace two_invoices @
      HttpPost (the (environ local_world ''OLLAMA_API_URL'') @ ''/generate'')
        (environ local_world ''OLLAMA_MODEL'') (prompt (concat [''%PDF-1''])) # rest"
    by blast
  then have p': "\<exists>rest. trace (process_file local_world (Anthropic None) True
        (child (Path ''inv'') ''Invoice March.pdf'') two_invoices) =
      HttpPost ''http://localhost:11434/api/generate'' (Some ''llama3'') (prompt ''%PDF-1'') # rest"
    by (simp add: e t u m)
  from h s' r' p' show ?thesis by blast
qed




end
